theory Spec2Isabelle
  imports Complex_Main "HOL-Library.Log_Nat"
begin

section \<open>Python built-ins used by \<^verbatim>\<open>create_samples.py\<close>\<close>

text \<open>
  \<^verbatim>\<open>range(start, stop, step)\<close> for a positive step, the only kind the script uses
  (\<^verbatim>\<open>range(n)\<close> is \<^verbatim>\<open>range(0, n, 1)\<close>).
\<close>

function py_range :: "int \<Rightarrow> int \<Rightarrow> int \<Rightarrow> int list" where
  "py_range start stop step =
     (if 0 < step \<and> start < stop then start # py_range (start + step) stop step else [])"
  by pat_completeness auto
termination
  by (relation "measure (\<lambda>(start, stop, step). nat (stop - start))") auto

declare py_range.simps [simp del]

definition digit_char :: "nat \<Rightarrow> char" where
  "digit_char d = ''0123456789'' ! d"

text \<open>\<^verbatim>\<open>str(n)\<close> on a non-negative integer: its decimal digits.\<close>

function str_nat :: "nat \<Rightarrow> string" where
  "str_nat n = (if n < 10 then [digit_char n] else str_nat (n div 10) @ [digit_char (n mod 10)])"
  by pat_completeness auto
termination
  by (relation "measure id") auto

declare str_nat.simps [simp del]

definition py_str :: "int \<Rightarrow> string" where
  "py_str i = (if i < 0 then CHR ''-'' # str_nat (nat (- i)) else str_nat (nat i))"

text \<open>
  The exceptions a run can raise: a failing \<^verbatim>\<open>import\<close>, numpy's \<^verbatim>\<open>ValueError\<close>,
  OpenCV's \<^verbatim>\<open>cv2.error\<close>, and any other. A statement that raises ends the sequence it
  is in (\<open>and_then\<close>).
\<close>

datatype error = ImportError | ValueError | Cv2Error | OtherError

definition and_then :: "error + 'a \<Rightarrow> ('a \<Rightarrow> error + 'b) \<Rightarrow> error + 'b" where
  "and_then r k = (case r of Inl e \<Rightarrow> Inl e | Inr v \<Rightarrow> k v)"

section \<open>Binary64 arithmetic\<close>

text \<open>
  A Python \<^verbatim>\<open>float\<close> is an IEEE 754 binary64 number. A finite one is modelled by the real
  number it denotes; every arithmetic operation returns the exact result rounded to the
  nearest representable number, ties to the even significand (\<open>rnd\<close>). All values of
  the script stay below \<open>2 ^ 11\<close>, far from overflow, so infinities are not modelled.
\<close>

definition round_half_even :: "real \<Rightarrow> int" where
  "round_half_even x =
     (let f = \<lfloor>x\<rfloor>; d = x - of_int f in
      if d < 1/2 then f else if 1/2 < d then f + 1 else if even f then f else f + 1)"

text \<open>\<open>ilog2 x\<close> is the binary exponent of a positive \<open>x\<close>: \<open>2 powi ilog2 x \<le> x < 2 powi (ilog2 x + 1)\<close>.\<close>

definition ilog2 :: "real \<Rightarrow> int" where
  "ilog2 x = (if 1 \<le> x then bitlen \<lfloor>x\<rfloor> - 1 else - bitlen (\<lceil>1 / x\<rceil> - 1))"

text \<open>The exponent of the unit in the last place: 53 significant bits, subnormals below \<open>2 powi (-1022)\<close>.\<close>

definition ulp_exp :: "real \<Rightarrow> int" where
  "ulp_exp x = max (ilog2 \<bar>x\<bar> - 52) (- 1074)"

definition rnd :: "real \<Rightarrow> real" where
  "rnd x = (if x = 0 then 0
            else of_int (round_half_even (x / 2 powi ulp_exp x)) * 2 powi ulp_exp x)"

definition fadd :: "real \<Rightarrow> real \<Rightarrow> real" where
  "fadd x y = rnd (x + y)"

definition fmul :: "real \<Rightarrow> real \<Rightarrow> real" where
  "fmul x y = rnd (x * y)"

text \<open>True division; every divisor in the script is a non-zero literal.\<close>

definition fdiv :: "real \<Rightarrow> real \<Rightarrow> real" where
  "fdiv x y = rnd (x / y)"

text \<open>\<^verbatim>\<open>int(x)\<close> on a float truncates towards zero.\<close>

definition py_int :: "real \<Rightarrow> int" where
  "py_int x = (if 0 \<le> x then \<lfloor>x\<rfloor> else \<lceil>x\<rceil>)"

text \<open>
  The format \<^verbatim>\<open>{x:.1f}\<close>: the exact value of the float rounded to the nearest tenth,
  ties to even, printed with one decimal digit.
\<close>

definition format_1f :: "real \<Rightarrow> string" where
  "format_1f x =
     (let t = nat (round_half_even (\<bar>x\<bar> * 10))
      in (if x < 0 then ''-'' else '''') @ str_nat (t div 10) @ ''.'' @ [digit_char (t mod 10)])"

text \<open>\<^verbatim>\<open>np.pi\<close> is the binary64 number \<open>0x1.921fb54442d18p+1\<close>.\<close>

definition np_pi :: real where
  "np_pi = 884279719003555 / 2 ^ 48"

text \<open>
  \<^verbatim>\<open>np.sin\<close> belongs to numpy; it is modelled as the correctly rounded sine, from which
  the library's result differs by at most one unit in the last place.
\<close>

definition np_sin :: "real \<Rightarrow> real" where
  "np_sin x = rnd (sin x)"

section \<open>Images\<close>

type_synonym point = "int \<times> int"

text \<open>A colour: a name or an \<open>(r, g, b)\<close> tuple. A fill argument is passed as written.\<close>

datatype fill = Named string | RGB int int int

datatype font = DefaultFont

datatype shape =
    Rectangle point point fill "fill option" int
  | Ellipse point point fill "fill option" int
  | Line point point fill
  | Polygon "point list" fill
  | Text point string fill "font option"

text \<open>An image under construction: its size, its background and the drawing calls in call order.\<close>

record image =
  size_wh :: point
  background :: fill
  ops :: "shape list"

definition new_image :: "point \<Rightarrow> fill \<Rightarrow> image" where
  "new_image wh bg = \<lparr>size_wh = wh, background = bg, ops = []\<rparr>"

definition draw :: "image \<Rightarrow> shape \<Rightarrow> image" where
  "draw im s = im\<lparr>ops := ops im @ [s]\<rparr>"

fun fill_of :: "shape \<Rightarrow> fill" where
  "fill_of (Rectangle p q f ol w) = f"
| "fill_of (Ellipse p q f ol w) = f"
| "fill_of (Line p q f) = f"
| "fill_of (Polygon ps f) = f"
| "fill_of (Text p s f fo) = f"

text \<open>
  Which pixels a call paints. An axis-parallel line of width one and a filled rectangle
  without outline paint both end points inclusively; how the library rasterises every
  other shape is not part of the script (\<open>None\<close>).
\<close>

fun covers :: "shape \<Rightarrow> point \<Rightarrow> bool option" where
  "covers (Line (x0, y0) (x1, y1) f) (x, y) =
     (if x0 = x1 then Some (x = x0 \<and> min y0 y1 \<le> y \<and> y \<le> max y0 y1)
      else if y0 = y1 then Some (y = y0 \<and> min x0 x1 \<le> x \<and> x \<le> max x0 x1)
      else None)"
| "covers (Rectangle (x0, y0) (x1, y1) f None w) (x, y) =
     Some (x0 \<le> x \<and> x \<le> x1 \<and> y0 \<le> y \<and> y \<le> y1)"
| "covers (Rectangle p q f (Some ol) w) xy = None"
| "covers (Ellipse p q f ol w) xy = None"
| "covers (Polygon ps f) xy = None"
| "covers (Text p s f fo) xy = None"

text \<open>
  The imaging library converts a colour tuple to the bytes it stores by clipping every
  channel to \<open>0..255\<close>.
\<close>

definition clip8 :: "int \<Rightarrow> int" where
  "clip8 v = max 0 (min 255 v)"

fun stored :: "fill \<Rightarrow> fill" where
  "stored (Named n) = Named n"
| "stored (RGB r g b) = RGB (clip8 r) (clip8 g) (clip8 b)"

definition paint :: "point \<Rightarrow> fill option \<Rightarrow> shape \<Rightarrow> fill option" where
  "paint xy cur s =
     (case covers s xy of
        None \<Rightarrow> None | Some True \<Rightarrow> Some (stored (fill_of s)) | Some False \<Rightarrow> cur)"

text \<open>
  The colour stored at a pixel inside the image (later calls overwrite earlier ones; calls
  are clipped to the image); \<open>None\<close> outside the image or where the library's own
  rasterisation decides.
\<close>

definition pixel :: "image \<Rightarrow> point \<Rightarrow> fill option" where
  "pixel im xy =
     (if 0 \<le> fst xy \<and> fst xy < fst (size_wh im) \<and> 0 \<le> snd xy \<and> snd xy < snd (size_wh im)
      then foldl (paint xy) (Some (stored (background im))) (ops im) else None)"

definition fill_in_range :: "fill \<Rightarrow> bool" where
  "fill_in_range f =
     (case f of Named n \<Rightarrow> True
      | RGB r g b \<Rightarrow> 0 \<le> r \<and> r \<le> 255 \<and> 0 \<le> g \<and> g \<le> 255 \<and> 0 \<le> b \<and> b \<le> 255)"

subsection \<open>Text and the default font\<close>

text \<open>
  \<^verbatim>\<open>ImageFont.load_default()\<close> returns a font or raises; \<open>ld n\<close> is the outcome of the
  \<open>n\<close>-th call of a run (counted from 0).
\<close>

type_synonym loader = "nat \<Rightarrow> error + font"

text \<open>
  The object \<^verbatim>\<open>ImageDraw.Draw(im)\<close>: the image it draws on and the default font it has
  loaded for itself so far, together with the number of calls of \<^verbatim>\<open>load_default\<close> the
  run has made.
\<close>

record drawing =
  canvas :: image
  own_font :: "font option"
  loads :: nat

definition new_draw :: "image \<Rightarrow> nat \<Rightarrow> drawing" where
  "new_draw im n = \<lparr>canvas = im, own_font = None, loads = n\<rparr>"

definition draw_shape :: "drawing \<Rightarrow> shape \<Rightarrow> drawing" where
  "draw_shape d s = d\<lparr>canvas := draw (canvas d) s\<rparr>"

text \<open>
  \<^verbatim>\<open>draw.text(xy, s, fill=f, font=fnt)\<close>. Given no font, the library takes the default
  font of the drawing object, and when the object has none yet it calls
  \<^verbatim>\<open>ImageFont.load_default()\<close> itself; an exception of that call leaves \<^verbatim>\<open>draw.text\<close>.
\<close>

definition draw_text ::
  "loader \<Rightarrow> drawing \<Rightarrow> point \<Rightarrow> string \<Rightarrow> fill \<Rightarrow> font option \<Rightarrow> error + drawing" where
  "draw_text ld d xy s f fnt =
     (if fnt = None \<and> own_font d = None
      then (case ld (loads d) of
              Inl e \<Rightarrow> Inl e
            | Inr ft \<Rightarrow>
                Inr (draw_shape (d\<lparr>own_font := Some ft, loads := Suc (loads d)\<rparr>) (Text xy s f fnt)))
      else Inr (draw_shape d (Text xy s f fnt)))"

subsection \<open>The four sample images\<close>

text \<open>
  Each image is returned with its drawing object, after \<open>n\<close> earlier calls of
  \<^verbatim>\<open>load_default\<close>; \<open>fnt\<close> is the script's variable \<^verbatim>\<open>font\<close>.
\<close>

definition img_4k :: "loader \<Rightarrow> nat \<Rightarrow> font option \<Rightarrow> error + drawing" where
  "img_4k ld n fnt =
     and_then
       (draw_text ld
          (draw_shape
             (draw_shape (new_draw (new_image (3840, 2160) (Named ''skyblue'')) n)
                (Rectangle (100, 100) (1000, 600) (Named ''red'') (Some (Named ''black'')) 5))
             (Ellipse (2000, 500) (3500, 1500) (Named ''green'') (Some (Named ''blue'')) 10))
          (200, 200) ''Sample 4K Image'' (Named ''white'') fnt)
       (\<lambda>d. draw_text ld d (200, 300) ''For CompressCLI Testing'' (Named ''white'') fnt)"

definition gradient_color_val :: "int \<Rightarrow> int" where
  "gradient_color_val i = py_int (fmul 255 (fdiv (of_int i) 1920))"

definition gradient_line :: "int \<Rightarrow> shape" where
  "gradient_line i =
     (let color_val = gradient_color_val i
      in Line (i, 0) (i, 1080) (RGB color_val 100 (255 - color_val)))"

definition img_1080p_gradient :: image where
  "img_1080p_gradient =
     foldl (\<lambda>im i. draw im (gradient_line i))
       (new_image (1920, 1080) (Named ''lightgreen'')) (py_range 0 1920 1)"

definition img_1080p :: "loader \<Rightarrow> nat \<Rightarrow> font option \<Rightarrow> error + drawing" where
  "img_1080p ld n fnt =
     and_then
       (draw_text ld (new_draw img_1080p_gradient n)
          (100, 100) ''Sample 1080p Image'' (Named ''white'') fnt)
       (\<lambda>d. draw_text ld d (100, 150) ''Gradient Background'' (Named ''white'') fnt)"

definition tile :: "int \<Rightarrow> int \<Rightarrow> shape" where
  "tile x y =
     Rectangle (x, y) (x + 40, y + 40) (RGB (x mod 255) (y mod 255) ((x + y) mod 255)) None 1"

definition img_720p_pattern :: image where
  "img_720p_pattern =
     foldl (\<lambda>im x. foldl (\<lambda>im y. draw im (tile x y)) im (py_range 0 720 50))
       (new_image (1280, 720) (Named ''orange'')) (py_range 0 1280 50)"

definition img_720p :: "loader \<Rightarrow> nat \<Rightarrow> font option \<Rightarrow> error + drawing" where
  "img_720p ld n fnt =
     and_then
       (draw_text ld (new_draw img_720p_pattern n)
          (50, 50) ''Sample 720p Image'' (Named ''white'') fnt)
       (\<lambda>d. draw_text ld d (50, 100) ''Pattern Background'' (Named ''white'') fnt)"

definition sky_color_val :: "int \<Rightarrow> int" where
  "sky_color_val y = py_int (fadd 135 (fmul (fdiv (of_int y) 500) 120))"

definition sky_line :: "int \<Rightarrow> shape" where
  "sky_line y =
     (let color_val = sky_color_val y
      in Line (0, y) (2048, y) (RGB color_val (color_val + 20) 255))"

definition ground_color_val :: "int \<Rightarrow> int" where
  "ground_color_val y = py_int (fadd 34 (fmul (fdiv (of_int (y - 500)) 1036) 100))"

definition ground_line :: "int \<Rightarrow> shape" where
  "ground_line y =
     (let color_val = ground_color_val y
      in Line (0, y) (2048, y) (RGB color_val (color_val + 50) color_val))"

definition img_photo_bands :: image where
  "img_photo_bands =
     foldl (\<lambda>im y. draw im (ground_line y))
       (foldl (\<lambda>im y. draw im (sky_line y))
          (new_image (2048, 1536) (Named ''lightblue'')) (py_range 0 500 1))
       (py_range 500 1536 1)"

definition mountains :: "point list" where
  "mountains = [(0, 500), (300, 200), (600, 350), (900, 150), (1200, 300), (1500, 100),
                (1800, 250), (2048, 180), (2048, 500)]"

definition img_photo :: "loader \<Rightarrow> nat \<Rightarrow> font option \<Rightarrow> error + drawing" where
  "img_photo ld n fnt =
     and_then
       (draw_text ld
          (draw_shape (new_draw img_photo_bands n) (Polygon mountains (Named ''gray'')))
          (100, 1400) ''Sample Photo-like Image'' (Named ''white'') fnt)
       (\<lambda>d. draw_text ld d (100, 1450) ''Landscape Simulation'' (Named ''white'') fnt)"

section \<open>Video frames\<close>

text \<open>
  A frame is the numpy array of shape \<open>(rows, cols, 3)\<close> and element type \<^verbatim>\<open>uint8\<close>,
  indexed \<open>(y, x)\<close>, together with the texts and origins of the \<^verbatim>\<open>cv2.putText\<close> calls
  made on it, in call order.
\<close>

record frame =
  rows :: int
  cols :: int
  data :: "int \<times> int \<Rightarrow> int \<times> int \<times> int"
  texts :: "(string \<times> point) list"

text \<open>\<^verbatim>\<open>np.zeros((h, w, 3), dtype=np.uint8)\<close>; numpy rejects a negative dimension with \<^verbatim>\<open>ValueError\<close>.\<close>

definition np_zeros :: "int \<Rightarrow> int \<Rightarrow> error + frame" where
  "np_zeros h w =
     (if h < 0 \<or> w < 0 then Inl ValueError
      else Inr \<lparr>rows = h, cols = w, data = (\<lambda>yx. (0, 0, 0)), texts = []\<rparr>)"

text \<open>Storing into a \<^verbatim>\<open>uint8\<close> element keeps the low eight bits.\<close>

definition uint8 :: "int \<Rightarrow> int" where
  "uint8 v = v mod 256"

definition set_pixel :: "frame \<Rightarrow> int \<Rightarrow> int \<Rightarrow> int \<times> int \<times> int \<Rightarrow> frame" where
  "set_pixel f y x c =
     (case c of (c0, c1, c2) \<Rightarrow> f\<lparr>data := (data f)((y, x) := (uint8 c0, uint8 c1, uint8 c2))\<rparr>)"

text \<open>\<^verbatim>\<open>2 * np.pi * frame_num / 60 + p / d\<close>\<close>

definition phase_arg :: "int \<Rightarrow> int \<Rightarrow> int \<Rightarrow> real" where
  "phase_arg frame_num p d =
     fadd (fdiv (fmul (fmul 2 np_pi) (of_int frame_num)) 60) (fdiv (of_int p) (of_int d))"

text \<open>\<^verbatim>\<open>int(128 + 127 * np.sin(2 * np.pi * frame_num / 60 + p / d))\<close>\<close>

definition channel :: "int \<Rightarrow> int \<Rightarrow> int \<Rightarrow> int" where
  "channel frame_num p d = py_int (fadd 128 (fmul 127 (np_sin (phase_arg frame_num p d))))"

definition video_r :: "int \<Rightarrow> int \<Rightarrow> int" where
  "video_r frame_num x = channel frame_num x 100"

definition video_g :: "int \<Rightarrow> int \<Rightarrow> int" where
  "video_g frame_num y = channel frame_num y 100"

definition video_b :: "int \<Rightarrow> int \<Rightarrow> int \<Rightarrow> int" where
  "video_b frame_num x y = channel frame_num (x + y) 200"

definition fill_row :: "int \<Rightarrow> int \<Rightarrow> frame \<Rightarrow> int \<Rightarrow> frame" where
  "fill_row frame_num width f y =
     foldl (\<lambda>f x. set_pixel f y x (video_b frame_num x y, video_g frame_num y, video_r frame_num x))
       f (py_range 0 width 1)"

text \<open>Lines 111 to 119: the zeroed array and the two nested iterations over it.\<close>

definition field_canvas :: "int \<Rightarrow> int \<Rightarrow> int \<Rightarrow> error + frame" where
  "field_canvas width height frame_num =
     (case np_zeros height width of
        Inl e \<Rightarrow> Inl e
      | Inr f \<Rightarrow> Inr (foldl (fill_row frame_num width) f (py_range 0 height 1)))"

text \<open>
  The glyphs of OpenCV's font are not part of the script: \<open>glyph s org (x, y)\<close> tells
  whether the text \<open>s\<close> put at the origin \<open>org\<close>, in the one font, scale and thickness the
  script uses, covers the pixel of column \<open>x\<close> and row \<open>y\<close>.
\<close>

type_synonym rasteriser = "string \<Rightarrow> point \<Rightarrow> point \<Rightarrow> bool"

text \<open>
  \<^verbatim>\<open>cv2.putText(frame, s, org, cv2.FONT_HERSHEY_SIMPLEX, 1, (255, 255, 255), 2)\<close> writes
  white into the array, in place, at every pixel of the array that the text covers; on an
  empty array it raises \<^verbatim>\<open>cv2.error\<close>.
\<close>

definition put_text :: "rasteriser \<Rightarrow> frame \<Rightarrow> string \<Rightarrow> point \<Rightarrow> error + frame" where
  "put_text glyph f s org =
     (if rows f \<le> 0 \<or> cols f \<le> 0 then Inl Cv2Error
      else Inr (f\<lparr>data := (\<lambda>(y, x). if 0 \<le> y \<and> y < rows f \<and> 0 \<le> x \<and> x < cols f
                                          \<and> glyph s org (x, y)
                                       then (255, 255, 255) else data f (y, x)),
                 texts := texts f @ [(s, org)]\<rparr>))"

definition counter_label :: "int \<Rightarrow> int \<Rightarrow> string" where
  "counter_label frame_num total_frames =
     ''Frame '' @ py_str (frame_num + 1) @ ''/'' @ py_str total_frames"

definition time_label :: "int \<Rightarrow> int \<Rightarrow> string" where
  "time_label frame_num fps = ''Time: '' @ format_1f (fdiv (of_int frame_num) (of_int fps)) @ ''s''"

text \<open>Lines 111 to 127: one pass of the iteration over the frame numbers, up to the frame it writes.\<close>

definition make_frame :: "rasteriser \<Rightarrow> int \<Rightarrow> int \<Rightarrow> int \<Rightarrow> int \<Rightarrow> int \<Rightarrow> error + frame" where
  "make_frame glyph width height fps total_frames frame_num =
     and_then (field_canvas width height frame_num)
       (\<lambda>f. and_then (put_text glyph f (counter_label frame_num total_frames) (50, 50))
       (\<lambda>f. and_then (put_text glyph f (time_label frame_num fps) (50, 100))
       (\<lambda>f. put_text glyph f ''Sample Video for CompressCLI'' (50, height - 50))))"

text \<open>The iteration over the frame numbers; \<open>out\<close> is what the video writer has received so far.\<close>

fun write_frames ::
  "rasteriser \<Rightarrow> int \<Rightarrow> int \<Rightarrow> int \<Rightarrow> int \<Rightarrow> int list \<Rightarrow> frame list \<Rightarrow> error + frame list" where
  "write_frames glyph width height fps total_frames [] out = Inr out"
| "write_frames glyph width height fps total_frames (frame_num # rest) out =
     (case make_frame glyph width height fps total_frames frame_num of
        Inl e \<Rightarrow> Inl e
      | Inr f \<Rightarrow> write_frames glyph width height fps total_frames rest (out @ [f]))"

section \<open>The two entry points and the files they leave\<close>

datatype artifact =
    ImageFile image "int option"
  | VideoFile int point "frame list"

record world =
  files :: "string \<rightharpoonup> artifact"
  stdout :: "string list"

text \<open>The frames of the video file a run has left, in the order the writer received them.\<close>

definition video_frames :: "world \<Rightarrow> frame list" where
  "video_frames w =
     (case files w (''examples/samples/sample_video.mp4'') of
        Some (VideoFile fps wh fs) \<Rightarrow> fs | Some (ImageFile im q) \<Rightarrow> [] | None \<Rightarrow> [])"

definition print :: "string \<Rightarrow> world \<Rightarrow> world" where
  "print s w = w\<lparr>stdout := stdout w @ [s]\<rparr>"

definition save :: "string \<Rightarrow> artifact \<Rightarrow> world \<Rightarrow> world" where
  "save path a w = w\<lparr>files := (files w)(path \<mapsto> a)\<rparr>"

definition samples_dir :: string where
  "samples_dir = ''examples/samples''"

text \<open>
  Lines 21 to 25: the bare \<^verbatim>\<open>except\<close> turns every exception of the script's own call of
  \<^verbatim>\<open>ImageFont.load_default()\<close> into \<^verbatim>\<open>font = None\<close>.
\<close>

definition acquire_font :: "error + font \<Rightarrow> font option" where
  "acquire_font load_default = (case load_default of Inr f \<Rightarrow> Some f | Inl e \<Rightarrow> None)"

text \<open>
  The script's own call of \<^verbatim>\<open>load_default\<close> is call 0 of the run. Each image is saved
  and announced before the next one is begun; an exception ends the function there.
\<close>

definition create_sample_images :: "loader \<Rightarrow> world \<Rightarrow> error + world" where
  "create_sample_images ld w =
     (let fnt = acquire_font (ld 0) in
      and_then (img_4k ld 1 fnt) (\<lambda>d1.
      let w1 = print ''Created sample_4k.png (3840x2160)''
                 (save (samples_dir @ ''/sample_4k.png'') (ImageFile (canvas d1) None) w) in
      and_then (img_1080p ld (loads d1) fnt) (\<lambda>d2.
      let w2 = print ''Created sample_1080p.jpg (1920x1080)''
                 (save (samples_dir @ ''/sample_1080p.jpg'') (ImageFile (canvas d2) (Some 95)) w1) in
      and_then (img_720p ld (loads d2) fnt) (\<lambda>d3.
      let w3 = print ''Created sample_720p.webp (1280x720)''
                 (save (samples_dir @ ''/sample_720p.webp'') (ImageFile (canvas d3) (Some 90)) w2) in
      and_then (img_photo ld (loads d3) fnt) (\<lambda>d4.
      Inr (print ''Created sample_photo.jpg (2048x1536)''
            (save (samples_dir @ ''/sample_photo.jpg'') (ImageFile (canvas d4) (Some 85)) w3)))))))"

text \<open>
  Lines 97 to 132, the statements of the \<^verbatim>\<open>try\<close> block after the import, with the two
  local constants \<^verbatim>\<open>width\<close> and \<^verbatim>\<open>height\<close> of line 100 as parameters.
\<close>

definition video_of_size :: "rasteriser \<Rightarrow> int \<Rightarrow> int \<Rightarrow> world \<Rightarrow> error + world" where
  "video_of_size glyph width height w =
     (let fps = 30; duration = 10; total_frames = fps * duration
      in case write_frames glyph width height fps total_frames (py_range 0 total_frames 1) [] of
           Inl e \<Rightarrow> Inl e
         | Inr out \<Rightarrow>
             Inr (print (''Created sample_video.mp4 ('' @ py_str width @ ''x'' @ py_str height
                           @ '', '' @ py_str duration @ ''s)'')
                   (save (samples_dir @ ''/sample_video.mp4'')
                      (VideoFile fps (width, height) out) w)))"

text \<open>
  The body of the \<^verbatim>\<open>try\<close> block; \<open>cv2_available\<close> tells whether \<^verbatim>\<open>import cv2\<close>
  succeeds. The import is the first statement, so nothing has happened when it fails.
  Line 100 fixes the size at 1280 by 720.
\<close>

definition video_body :: "rasteriser \<Rightarrow> bool \<Rightarrow> world \<Rightarrow> error + world" where
  "video_body glyph cv2_available w =
     (if \<not> cv2_available then Inl ImportError else video_of_size glyph 1280 720 w)"

text \<open>Lines 134 to 136: the handler catches \<^verbatim>\<open>ImportError\<close> and nothing else.\<close>

definition except_import_error :: "error + world \<Rightarrow> world \<Rightarrow> error + world" where
  "except_import_error r w =
     (case r of
        Inl ImportError \<Rightarrow>
          Inr (print ''To create sample video, install: pip install opencv-python numpy''
                (print ''OpenCV not available, skipping video creation'' w))
      | Inl e \<Rightarrow> Inl e
      | Inr w' \<Rightarrow> Inr w')"

definition create_sample_video :: "rasteriser \<Rightarrow> bool \<Rightarrow> world \<Rightarrow> error + world" where
  "create_sample_video glyph cv2_available w =
     except_import_error (video_body glyph cv2_available w) w"

definition main :: "loader \<Rightarrow> rasteriser \<Rightarrow> bool \<Rightarrow> world \<Rightarrow> error + world" where
  "main ld glyph cv2_available w =
     (case create_sample_images ld
             (print ''Creating sample files for CompressCLI testing...'' w) of
        Inl e \<Rightarrow> Inl e
      | Inr w1 \<Rightarrow>
          (case create_sample_video glyph cv2_available w1 of
             Inl e \<Rightarrow> Inl e
           | Inr w2 \<Rightarrow>
               Inr (print ''You can now test CompressCLI with these files!''
                     (print (CHR 0x0A # ''Sample files created in examples/samples/'') w2))))"

section \<open>Enclosing the sine\<close>

text \<open>
  The terms \<open>x^(2j+1) / (2j+1)!\<close> of the sine series, and a checker for a chain of
  rational bounds on them: given bounds on term \<open>j\<close> and on the alternating partial sum
  up to it, it accepts the next bounds when they follow from the recurrence between
  consecutive terms, and returns the bounds on the last term and on the whole sum.
\<close>

definition sin_term :: "real \<Rightarrow> nat \<Rightarrow> real" where
  "sin_term x j = x ^ (2 * j + 1) / fact (2 * j + 1)"

fun sin_chain ::
  "real \<Rightarrow> nat \<Rightarrow> real \<times> real \<Rightarrow> real \<times> real \<Rightarrow> (real \<times> real) list
     \<Rightarrow> ((real \<times> real) \<times> (real \<times> real)) option" where
  "sin_chain x j t s [] = Some (t, s)"
| "sin_chain x j t s (t' # bs) =
     (let c = x\<^sup>2 / (real (2 * j + 2) * real (2 * j + 3))
      in if fst t' \<le> fst t * c \<and> snd t * c \<le> snd t'
         then sin_chain x (Suc j) t'
                (if even (Suc j) then (fst s + fst t', snd s + snd t')
                 else (fst s - snd t', snd s - fst t')) bs
         else None)"

section \<open>Facts about binary64 rounding\<close>

lemma pow2_less_iff: "(2::real) powi a < 2 powi b \<longleftrightarrow> a < b"
proof
  assume h: "(2::real) powi a < 2 powi b"
  show "a < b"
  proof (rule ccontr)
    assume "\<not> a < b"
    then have "b \<le> a" by simp
    then have "(2::real) powi b \<le> 2 powi a" by (rule power_int_increasing) simp
    with h show False by simp
  qed
next
  assume "a < b"
  then show "(2::real) powi a < 2 powi b" by (rule power_int_strict_increasing) simp
qed

lemma pow2_le_iff: "(2::real) powi a \<le> 2 powi b \<longleftrightarrow> a \<le> b"
  using pow2_less_iff[of b a] by (auto simp: not_less[symmetric])

lemma pow2_nonneg: "0 \<le> k \<Longrightarrow> (2::real) powi k = 2 ^ nat k"
  by (simp add: power_int_def)

lemma pow2_neg: "0 \<le> k \<Longrightarrow> (2::real) powi (- k) = 1 / 2 ^ nat k"
  by (simp add: power_int_def field_simps)

lemma ilog2_lower: assumes "0 < x" shows "2 powi (ilog2 x) \<le> x"
proof (cases "1 \<le> x")
  case True
  define n where "n = \<lfloor>x\<rfloor>"
  have n: "0 < n" using True by (simp add: n_def)
  have b: "1 \<le> bitlen n" using n by (simp add: bitlen_alt_def)
  have "(2::int) ^ nat (bitlen n - 1) \<le> n" using bitlen_bounds[OF n] by simp
  then have "real_of_int (2 ^ nat (bitlen n - 1)) \<le> real_of_int n" by linarith
  also have "\<dots> \<le> x" by (simp add: n_def)
  finally have "(2::real) ^ nat (bitlen n - 1) \<le> x" by simp
  moreover have "ilog2 x = bitlen n - 1" using True by (simp add: ilog2_def n_def)
  ultimately show ?thesis using b by (simp add: power_int_def)
next
  case False
  define m where "m = \<lceil>1 / x\<rceil> - 1"
  have y: "1 < 1 / x" using False assms by simp
  have m: "0 < m" using y by (simp add: m_def less_ceiling_iff)
  have "1 / x \<le> real_of_int m + 1" by (simp add: m_def)
  also have "m + 1 \<le> 2 ^ nat (bitlen m)" using bitlen_bounds[OF m] by simp
  then have "real_of_int m + 1 \<le> 2 ^ nat (bitlen m)"
    using of_int_le_iff[of "m + 1" "2 ^ nat (bitlen m)", where ?'a = real] by simp
  finally have "1 / x \<le> 2 ^ nat (bitlen m)" .
  then have "1 / 2 ^ nat (bitlen m) \<le> x" using assms
    by (simp add: field_simps)
  moreover have "ilog2 x = - bitlen m" using False by (simp add: ilog2_def m_def)
  ultimately show ?thesis using bitlen_nonneg[of m]
    by (simp add: pow2_neg)
qed

lemma ilog2_upper: assumes "0 < x" shows "x < 2 powi (ilog2 x + 1)"
proof (cases "1 \<le> x")
  case True
  define n where "n = \<lfloor>x\<rfloor>"
  have n: "0 < n" using True by (simp add: n_def)
  have b: "1 \<le> bitlen n" using n by (simp add: bitlen_alt_def)
  have "n + 1 \<le> 2 ^ nat (bitlen n)" using bitlen_bounds[OF n] by simp
  then have "real_of_int n + 1 \<le> 2 ^ nat (bitlen n)"
    using of_int_le_iff[of "n + 1" "2 ^ nat (bitlen n)", where ?'a = real] by simp
  moreover have "x < real_of_int n + 1" by (simp add: n_def)
  ultimately have "x < 2 ^ nat (bitlen n)" by linarith
  moreover have "ilog2 x = bitlen n - 1" using True by (simp add: ilog2_def n_def)
  ultimately show ?thesis using b by (simp add: power_int_def)
next
  case False
  define m where "m = \<lceil>1 / x\<rceil> - 1"
  have y: "1 < 1 / x" using False assms by simp
  have m: "0 < m" using y by (simp add: m_def less_ceiling_iff)
  have b: "1 \<le> bitlen m" using m by (simp add: bitlen_alt_def)
  have "(2::int) ^ nat (bitlen m - 1) \<le> m" using bitlen_bounds[OF m] by simp
  then have "real_of_int (2 ^ nat (bitlen m - 1)) \<le> real_of_int m" by linarith
  also have "real_of_int m < 1 / x" using ceiling_correct[of "1 / x"] by (simp add: m_def)
  finally have "(2::real) ^ nat (bitlen m - 1) < 1 / x" by simp
  then have "x < 1 / 2 ^ nat (bitlen m - 1)" using assms
    by (simp add: field_simps)
  moreover have "ilog2 x = - bitlen m" using False by (simp add: ilog2_def m_def)
  moreover have "- bitlen m + 1 = - (bitlen m - 1)" by simp
  ultimately show ?thesis using b
    by (simp only: pow2_neg)
qed

lemma ilog2_unique:
  assumes "2 powi k \<le> x" "x < 2 powi (k + 1)"
  shows "ilog2 x = k"
proof -
  have x: "0 < x" using assms(1) using zero_less_power_int[of "2::real" k] by linarith
  have "(2::real) powi (ilog2 x) < 2 powi (k + 1)"
    using ilog2_lower[OF x] assms(2) by linarith
  then have "ilog2 x < k + 1" by (simp add: pow2_less_iff)
  moreover have "(2::real) powi k < 2 powi (ilog2 x + 1)"
    using ilog2_upper[OF x] assms(1) by linarith
  then have "k < ilog2 x + 1" by (simp add: pow2_less_iff)
  ultimately show ?thesis by linarith
qed

lemma ilog2_mono: assumes "0 < x" "x \<le> y" shows "ilog2 x \<le> ilog2 y"
proof -
  have "(2::real) powi (ilog2 x) < 2 powi (ilog2 y + 1)"
    using ilog2_lower[OF assms(1)] ilog2_upper[of y] assms by linarith
  then have "ilog2 x < ilog2 y + 1" by (simp add: pow2_less_iff)
  then show ?thesis by simp
qed

lemma rhe_disj:
  "(round_half_even x = \<lfloor>x\<rfloor> \<and> x - of_int \<lfloor>x\<rfloor> \<le> 1/2) \<or>
   (round_half_even x = \<lfloor>x\<rfloor> + 1 \<and> 1/2 \<le> x - of_int \<lfloor>x\<rfloor>)"
  unfolding round_half_even_def Let_def by simp

lemma rhe_upper: "real_of_int (round_half_even x) \<le> x + 1/2"
  using rhe_disj[of x] by (elim disjE conjE; simp; linarith)

lemma rhe_lower: "x - 1/2 \<le> real_of_int (round_half_even x)"
  using rhe_disj[of x] by (elim disjE conjE; simp; linarith)

lemma rhe_of_int: "round_half_even (of_int n) = n"
  by (simp add: round_half_even_def)

lemma rhe_mono: assumes "x \<le> y" shows "round_half_even x \<le> round_half_even y"
proof (cases "\<lfloor>x\<rfloor> = \<lfloor>y\<rfloor>")
  case True
  then show ?thesis using assms
    unfolding round_half_even_def Let_def by (auto split: if_splits)
next
  case False
  have "\<lfloor>x\<rfloor> \<le> \<lfloor>y\<rfloor>" using assms by (rule floor_mono)
  with False have "\<lfloor>x\<rfloor> + 1 \<le> \<lfloor>y\<rfloor>" by simp
  moreover have "round_half_even x \<le> \<lfloor>x\<rfloor> + 1"
    unfolding round_half_even_def Let_def by simp
  moreover have "\<lfloor>y\<rfloor> \<le> round_half_even y"
    unfolding round_half_even_def Let_def by simp
  ultimately show ?thesis by linarith
qed

lemma rhe_neg: "round_half_even (- x) = - round_half_even x"
proof (cases "x = of_int \<lfloor>x\<rfloor>")
  case True
  then obtain n where "x = of_int n" by blast
  then show ?thesis using rhe_of_int[of n] rhe_of_int[of "- n"] by simp
next
  case False
  then have fl: "\<lfloor>- x\<rfloor> = - \<lfloor>x\<rfloor> - 1"
    by (simp add: floor_minus ceiling_altdef)
  have d: "0 < x - of_int \<lfloor>x\<rfloor>" using False floor_correct[of x] by linarith
  show ?thesis
    unfolding round_half_even_def Let_def fl using d
    by (auto split: if_splits)
qed

lemma ulp_exp_neg: "ulp_exp (- x) = ulp_exp x"
  by (simp add: ulp_exp_def)

lemma rnd_zero: "rnd 0 = 0"
  by (simp add: rnd_def)

lemma rnd_neg: "rnd (- x) = - rnd x"
  by (simp add: rnd_def ulp_exp_neg rhe_neg)

lemma rnd_nonneg: assumes "0 \<le> x" shows "0 \<le> rnd x"
proof -
  have "0 \<le> x / 2 powi ulp_exp x" using assms by simp
  then have "round_half_even 0 \<le> round_half_even (x / 2 powi ulp_exp x)" by (rule rhe_mono)
  then have "0 \<le> round_half_even (x / 2 powi ulp_exp x)" using rhe_of_int[of 0] by simp
  then show ?thesis by (simp add: rnd_def)
qed

lemma ulp_exp_mono: assumes "0 < x" "x \<le> y" shows "ulp_exp x \<le> ulp_exp y"
  using ilog2_mono[of "\<bar>x\<bar>" "\<bar>y\<bar>"] assms by (simp add: ulp_exp_def)

lemma rnd_mono_pos: assumes "0 < x" "x \<le> y" shows "rnd x \<le> rnd y"
proof -
  have y: "0 < y" using assms by simp
  have le: "ulp_exp x \<le> ulp_exp y" using assms by (rule ulp_exp_mono)
  show ?thesis
  proof (cases "ulp_exp x = ulp_exp y")
    case True
    have "x / 2 powi ulp_exp y \<le> y / 2 powi ulp_exp y"
      using assms by (simp add: divide_right_mono)
    then have "round_half_even (x / 2 powi ulp_exp y) \<le> round_half_even (y / 2 powi ulp_exp y)"
      by (rule rhe_mono)
    then have "real_of_int (round_half_even (x / 2 powi ulp_exp y)) * 2 powi ulp_exp y
             \<le> real_of_int (round_half_even (y / 2 powi ulp_exp y)) * 2 powi ulp_exp y"
      by (simp add: mult_right_mono)
    then show ?thesis using assms y True by (simp add: rnd_def)
  next
    case False
    with le have lt: "ulp_exp x + 1 \<le> ulp_exp y" by simp
    then have ey: "ulp_exp y = ilog2 y - 52" using y
      by (simp add: ulp_exp_def max_def split: if_splits)
    have "2 powi (ilog2 y) \<le> y" using y by (rule ilog2_lower)
    then have "2 powi (ulp_exp y + 52) \<le> y" by (simp add: ey)
    then have "2 powi 52 * 2 powi ulp_exp y \<le> y"
      by (simp add: power_int_add mult.commute)
    then have "of_int (2 ^ 52) \<le> y / 2 powi ulp_exp y"
      by (simp add: pos_le_divide_eq)
    then have "round_half_even (of_int (2 ^ 52)) \<le> round_half_even (y / 2 powi ulp_exp y)"
      by (rule rhe_mono)
    then have "2 ^ 52 \<le> round_half_even (y / 2 powi ulp_exp y)"
      by (simp only: rhe_of_int)
    then have "real_of_int (2 ^ 52) \<le> real_of_int (round_half_even (y / 2 powi ulp_exp y))"
      by (simp only: of_int_le_iff)
    then have "real_of_int (2 ^ 52) * 2 powi ulp_exp y \<le> rnd y"
      using y by (simp add: rnd_def mult_right_mono)
    then have low: "2 powi (ulp_exp y + 52) \<le> rnd y"
      by (simp add: power_int_add mult.commute)
    have "ilog2 x - 52 \<le> ulp_exp x" using assms(1) by (simp add: ulp_exp_def)
    then have "ilog2 x + 1 \<le> ulp_exp x + 53" by simp
    then have "(2::real) powi (ilog2 x + 1) \<le> 2 powi (ulp_exp x + 53)"
      by (simp only: pow2_le_iff)
    with ilog2_upper[OF assms(1)] have "x \<le> 2 powi (ulp_exp x + 53)" by linarith
    then have "x \<le> 2 powi 53 * 2 powi ulp_exp x"
      by (simp add: power_int_add mult.commute)
    then have "x / 2 powi ulp_exp x \<le> of_int (2 ^ 53)"
      by (simp add: pos_divide_le_eq)
    then have "round_half_even (x / 2 powi ulp_exp x) \<le> round_half_even (of_int (2 ^ 53))"
      by (rule rhe_mono)
    then have "round_half_even (x / 2 powi ulp_exp x) \<le> 2 ^ 53"
      by (simp only: rhe_of_int)
    then have "real_of_int (round_half_even (x / 2 powi ulp_exp x)) \<le> real_of_int (2 ^ 53)"
      by (simp only: of_int_le_iff)
    then have "rnd x \<le> real_of_int (2 ^ 53) * 2 powi ulp_exp x"
      using assms(1) by (simp add: rnd_def mult_right_mono)
    then have "rnd x \<le> 2 powi (ulp_exp x + 53)"
      by (simp add: power_int_add mult.commute)
    also have "\<dots> \<le> 2 powi (ulp_exp y + 52)"
      using lt by (simp only: pow2_le_iff)
    also note low
    finally show ?thesis .
  qed
qed

lemma rnd_mono: assumes "x \<le> y" shows "rnd x \<le> rnd y"
proof -
  consider "0 < x" | "x \<le> 0" "0 \<le> y" | "y < 0" by linarith
  then show ?thesis
  proof cases
    case 1
    then show ?thesis using assms by (rule rnd_mono_pos)
  next
    case 2
    have "0 \<le> rnd (- x)" using 2 by (intro rnd_nonneg) simp
    then have "rnd x \<le> 0" by (simp add: rnd_neg)
    moreover have "0 \<le> rnd y" using 2 by (intro rnd_nonneg)
    ultimately show ?thesis by linarith
  next
    case 3
    have "rnd (- y) \<le> rnd (- x)" using 3 assms by (intro rnd_mono_pos) simp_all
    then show ?thesis by (simp add: rnd_neg)
  qed
qed

lemma rnd_fix_pos:
  assumes "0 < m" "m < 2 ^ 53" "- 1074 \<le> e"
  shows "rnd (of_int m * 2 powi e) = of_int m * 2 powi e"
proof -
  define x :: real where "x = of_int m * 2 powi e"
  define E where "E = ulp_exp x"
  have x: "0 < x" using assms(1) by (simp add: x_def)
  have "real_of_int m < real_of_int (2 ^ 53)" using assms(2) by (simp only: of_int_less_iff)
  then have "x < 2 powi 53 * 2 powi e" by (simp add: x_def)
  then have "x < 2 powi (e + 53)" by (simp add: power_int_add mult.commute)
  with ilog2_lower[OF x] have "(2::real) powi (ilog2 x) < 2 powi (e + 53)" by linarith
  then have "ilog2 x < e + 53" by (simp only: pow2_less_iff)
  then have E: "E \<le> e" using assms(3) x by (simp add: E_def ulp_exp_def)
  then have "(2::real) powi e = 2 powi (e - E) * 2 powi E"
    by (simp add: power_int_add[symmetric])
  also have "(2::real) powi (e - E) = of_int (2 ^ nat (e - E))"
    using E by (simp add: pow2_nonneg)
  finally have p: "(2::real) powi e = of_int (2 ^ nat (e - E)) * 2 powi E" .
  have "x / 2 powi E = of_int (m * 2 ^ nat (e - E))"
    by (simp add: x_def p)
  then have "round_half_even (x / 2 powi E) = m * 2 ^ nat (e - E)"
    by (simp only: rhe_of_int)
  then have "rnd x = of_int (m * 2 ^ nat (e - E)) * 2 powi E"
    using x by (simp add: rnd_def E_def)
  also have "\<dots> = x" by (simp add: x_def p)
  finally show ?thesis by (simp add: x_def)
qed

lemma rnd_fix:
  assumes "\<bar>m\<bar> < 2 ^ 53" "- 1074 \<le> e"
  shows "rnd (of_int m * 2 powi e) = of_int m * 2 powi e"
proof -
  consider "0 < m" | "m = 0" | "m < 0" by linarith
  then show ?thesis
  proof cases
    case 1
    then show ?thesis using assms by (intro rnd_fix_pos) simp_all
  next
    case 2
    then show ?thesis by (simp add: rnd_zero)
  next
    case 3
    then have "rnd (of_int (- m) * 2 powi e) = of_int (- m) * 2 powi e"
      using assms by (intro rnd_fix_pos) simp_all
    then have "rnd (- (of_int m * 2 powi e)) = - (of_int m * 2 powi e)" by simp
    then show ?thesis by (simp only: rnd_neg neg_equal_iff_equal)
  qed
qed

lemma rnd_of_int: assumes "\<bar>n\<bar> < 2 ^ 53" shows "rnd (of_int n) = of_int n"
  using rnd_fix[of n 0] assms by simp

lemma ulp_exp_normal:
  assumes "2 powi (- 1022) \<le> \<bar>x\<bar>"
  shows "ulp_exp x = ilog2 \<bar>x\<bar> - 52"
proof -
  have x: "0 < \<bar>x\<bar>" using assms zero_less_power_int[of "2::real" "- 1022"] by linarith
  have "(2::real) powi (- 1022) < 2 powi (ilog2 \<bar>x\<bar> + 1)"
    using ilog2_upper[OF x] assms by linarith
  then have "- 1022 < ilog2 \<bar>x\<bar> + 1" by (simp only: pow2_less_iff)
  then show ?thesis by (simp add: ulp_exp_def)
qed

lemma rnd_eq:
  assumes "2 powi k \<le> \<bar>x\<bar>" "\<bar>x\<bar> < 2 powi (k + 1)" "- 1022 \<le> k"
  shows "rnd x = of_int (round_half_even (x / 2 powi (k - 52))) * 2 powi (k - 52)"
proof -
  have k: "ilog2 \<bar>x\<bar> = k" using assms(1,2) by (rule ilog2_unique)
  have "(2::real) powi (- 1022) \<le> 2 powi k" using assms(3) by (simp only: pow2_le_iff)
  then have "2 powi (- 1022) \<le> \<bar>x\<bar>" using assms(1) by linarith
  then have e: "ulp_exp x = k - 52" using k by (simp add: ulp_exp_normal)
  have "0 < \<bar>x\<bar>" using assms(1) zero_less_power_int[of "2::real" k] by linarith
  then have "x \<noteq> 0" by simp
  then show ?thesis by (simp add: rnd_def e)
qed

lemma rnd_err:
  assumes "2 powi (- 1022) \<le> \<bar>x\<bar>"
  shows "\<bar>rnd x - x\<bar> \<le> \<bar>x\<bar> / 2 ^ 53"
proof -
  define E where "E = ulp_exp x"
  define r where "r = real_of_int (round_half_even (x / 2 powi E))"
  have x: "0 < \<bar>x\<bar>" using assms zero_less_power_int[of "2::real" "- 1022"] by linarith
  have E: "E = ilog2 \<bar>x\<bar> - 52" using assms by (simp add: E_def ulp_exp_normal)
  have "\<bar>r - x / 2 powi E\<bar> \<le> 1 / 2"
    unfolding r_def using rhe_upper[of "x / 2 powi E"] rhe_lower[of "x / 2 powi E"] by linarith
  then have "\<bar>r - x / 2 powi E\<bar> * 2 powi E \<le> 1 / 2 * 2 powi E"
    by (rule mult_right_mono) simp
  moreover have "\<bar>r - x / 2 powi E\<bar> * 2 powi E = \<bar>r * 2 powi E - x\<bar>"
  proof -
    have "\<bar>r - x / 2 powi E\<bar> * 2 powi E = \<bar>(r - x / 2 powi E) * 2 powi E\<bar>"
      by (simp add: abs_mult)
    also have "(r - x / 2 powi E) * 2 powi E = r * 2 powi E - x"
      by (simp add: left_diff_distrib)
    finally show ?thesis .
  qed
  moreover have "rnd x = r * 2 powi E" using x by (auto simp: rnd_def r_def E_def)
  ultimately have "\<bar>rnd x - x\<bar> \<le> 2 powi E / 2" by simp
  also have "2 powi E / 2 = (2::real) powi (ilog2 \<bar>x\<bar>) / 2 ^ 53"
    by (simp add: E power_int_diff)
  also have "\<dots> \<le> \<bar>x\<bar> / 2 ^ 53"
    using ilog2_lower[OF x] by (simp add: divide_right_mono)
  finally show ?thesis .
qed


section \<open>Ranges, strings and drawing calls\<close>

lemma py_range_set:
  "x \<in> set (py_range a b s) \<longleftrightarrow> 0 < s \<and> a \<le> x \<and> x < b \<and> (x - a) mod s = 0"
proof (induction a b s rule: py_range.induct)
  case (1 start stop step)
  show ?case
  proof (cases "0 < step \<and> start < stop")
    case True
    have "(x - (start + step)) mod step = (x - start) mod step"
      by (metis diff_diff_eq minus_mod_self2)
    moreover have "start + step \<le> x" if "start < x" "(x - start) mod step = 0"
    proof (rule ccontr)
      assume "\<not> start + step \<le> x"
      then have "(x - start) mod step = x - start"
        using that(1) by (intro mod_pos_pos_trivial) simp_all
      with that show False by simp
    qed
    ultimately show ?thesis
      using True "1.IH" by (subst py_range.simps) auto
  next
    case False
    then show ?thesis by (subst py_range.simps) auto
  qed
qed

lemma py_range_sorted: "sorted_wrt (<) (py_range a b s)"
proof (induction a b s rule: py_range.induct)
  case (1 start stop step)
  show ?case
  proof (cases "0 < step \<and> start < stop")
    case True
    then show ?thesis using "1.IH"
      by (subst py_range.simps) (auto simp: py_range_set)
  next
    case False
    then show ?thesis by (subst py_range.simps) auto
  qed
qed

lemma py_range_distinct: "distinct (py_range a b s)"
  using py_range_sorted[of a b s] strict_sorted_iff by (metis strict_sorted_iff)

lemma py_range_upto: "py_range a b 1 = [a..b - 1]"
proof (induction a b "1::int" rule: py_range.induct)
  case (1 start stop)
  show ?case
  proof (cases "start < stop")
    case True
    then show ?thesis using "1.hyps"
      by (subst py_range.simps, subst upto.simps) auto
  next
    case False
    then show ?thesis by (subst py_range.simps) auto
  qed
qed

lemma str_300: "py_str 300 = ''300''"
  by (simp add: py_str_def str_nat.simps digit_char_def)

lemma foldl_draw_ops: "ops (foldl (\<lambda>im i. draw im (f i)) im xs) = ops im @ map f xs"
  by (induction xs arbitrary: im) (simp_all add: draw_def)

lemma foldl_draw_size: "size_wh (foldl (\<lambda>im i. draw im (f i)) im xs) = size_wh im"
  by (induction xs arbitrary: im) (simp_all add: draw_def)

lemma foldl_draw_background: "background (foldl (\<lambda>im i. draw im (f i)) im xs) = background im"
  by (induction xs arbitrary: im) (simp_all add: draw_def)

lemma foldl_draw2_ops:
  "ops (foldl (\<lambda>im x. foldl (\<lambda>im y. draw im (f x y)) im ys) im xs)
     = ops im @ concat (map (\<lambda>x. map (f x) ys) xs)"
  by (induction xs arbitrary: im) (simp_all add: foldl_draw_ops)

lemma foldl_draw2_size:
  "size_wh (foldl (\<lambda>im x. foldl (\<lambda>im y. draw im (f x y)) im ys) im xs) = size_wh im"
  by (induction xs arbitrary: im) (simp_all add: foldl_draw_size)

lemma foldl_paint_unique:
  assumes "\<forall>t \<in> set ss. covers t p \<noteq> None"
    and "s \<in> set ss" and "covers s p = Some True"
    and "\<forall>t \<in> set ss. covers t p = Some True \<longrightarrow> fill_of t = fill_of s"
  shows "foldl (paint p) cur ss = Some (stored (fill_of s))"
  using assms
proof (induction ss rule: rev_induct)
  case Nil
  then show ?case by simp
next
  case (snoc t ss)
  have known: "\<forall>u \<in> set ss. covers u p \<noteq> None" using snoc.prems(1) by simp
  have same: "\<forall>u \<in> set ss. covers u p = Some True \<longrightarrow> fill_of u = fill_of s"
    using snoc.prems(4) by simp
  have "covers t p \<noteq> None" using snoc.prems(1) by simp
  then obtain b where b: "covers t p = Some b" by blast
  show ?case
  proof (cases b)
    case True
    have "fill_of t = fill_of s" using snoc.prems(4) b True by simp
    then have "paint p (foldl (paint p) cur ss) t = Some (stored (fill_of s))"
      using b True by (simp add: paint_def)
    then show ?thesis by simp
  next
    case False
    have "s \<noteq> t" using b False snoc.prems(3) by auto
    then have mem: "s \<in> set ss" using snoc.prems(2) by simp
    have "foldl (paint p) cur ss = Some (stored (fill_of s))"
      by (rule snoc.IH[OF known mem snoc.prems(3) same])
    moreover have "paint p (foldl (paint p) cur ss) t = foldl (paint p) cur ss"
      using b False by (simp add: paint_def)
    ultimately show ?thesis by simp
  qed
qed

lemma concat_map_product:
  "concat (map (\<lambda>x. map (f x) ys) xs) = map (\<lambda>(x, y). f x y) (List.product xs ys)"
  by (induction xs) simp_all

lemma pattern_ops:
  "ops img_720p_pattern
     = map (\<lambda>(x, y). tile x y) (List.product (py_range 0 1280 50) (py_range 0 720 50))"
  by (simp add: img_720p_pattern_def foldl_draw2_ops new_image_def concat_map_product)

lemma tile_inj: "tile x y = tile x' y' \<longleftrightarrow> x = x' \<and> y = y'"
proof
  assume "tile x y = tile x' y'"
  then show "x = x' \<and> y = y'" unfolding tile_def by (simp only: shape.inject prod.inject)
next
  assume "x = x' \<and> y = y'"
  then show "tile x y = tile x' y'" by simp
qed

lemma pattern_set:
  "set (ops img_720p_pattern)
     = (\<lambda>(x, y). tile x y) ` {(x, y). 0 \<le> x \<and> x < 1280 \<and> 50 dvd x \<and> 0 \<le> y \<and> y < 720 \<and> 50 dvd y}"
proof -
  have "set (py_range 0 1280 50) \<times> set (py_range 0 720 50)
      = {(x, y). 0 \<le> x \<and> x < 1280 \<and> 50 dvd x \<and> 0 \<le> y \<and> y < 720 \<and> 50 dvd y}"
    by (auto simp: py_range_set)
  then show ?thesis by (simp add: pattern_ops)
qed

lemma pattern_distinct: "distinct (ops img_720p_pattern)"
  unfolding pattern_ops
  by (auto simp: distinct_map distinct_product py_range_distinct inj_on_def tile_inj)


lemma grid_unique:
  fixes x x' p :: int
  assumes "50 dvd x" "50 dvd x'" "x \<le> p" "p \<le> x + 40" "x' \<le> p" "p \<le> x' + 40"
  shows "x' = x"
proof -
  from assms(1,2) obtain a b where "x = 50 * a" "x' = 50 * b" by (auto elim!: dvdE)
  with assms(3-6) show ?thesis by simp
qed

lemma pattern_size: "size_wh img_720p_pattern = (1280, 720)"
  by (simp add: img_720p_pattern_def foldl_draw2_size new_image_def)

lemma tile_covers:
  "covers (tile x y) (px, py) = Some (x \<le> px \<and> px \<le> x + 40 \<and> y \<le> py \<and> py \<le> y + 40)"
  by (simp add: tile_def)

lemma tile_fill: "fill_of (tile x y) = RGB (x mod 255) (y mod 255) ((x + y) mod 255)"
  by (simp add: tile_def)

lemma pattern_pixel:
  assumes "0 \<le> x" "x < 1280" "50 dvd x" "0 \<le> y" "y < 720" "50 dvd y"
    and "x \<le> px" "px \<le> x + 40" "px < 1280" "y \<le> py" "py \<le> y + 40" "py < 720"
  shows "pixel img_720p_pattern (px, py) = Some (RGB (x mod 255) (y mod 255) ((x + y) mod 255))"
proof -
  have inb: "0 \<le> px" "0 \<le> py" using assms by auto
  have "foldl (paint (px, py)) (Some (stored (background img_720p_pattern))) (ops img_720p_pattern)
          = Some (stored (fill_of (tile x y)))"
  proof (rule foldl_paint_unique)
    show "\<forall>t\<in>set (ops img_720p_pattern). covers t (px, py) \<noteq> None"
      unfolding pattern_set by (clarsimp simp: tile_covers)
    show "tile x y \<in> set (ops img_720p_pattern)"
      unfolding pattern_set using assms(1-6) by blast
    show "covers (tile x y) (px, py) = Some True"
      using assms by (simp add: tile_covers)
    show "\<forall>t\<in>set (ops img_720p_pattern).
            covers t (px, py) = Some True \<longrightarrow> fill_of t = fill_of (tile x y)"
    proof (intro ballI impI)
      fix t assume "t \<in> set (ops img_720p_pattern)" and c: "covers t (px, py) = Some True"
      then obtain x' y' where t: "t = tile x' y'" and g: "50 dvd x'" "50 dvd y'"
        unfolding pattern_set by auto
      from c t have b: "x' \<le> px" "px \<le> x' + 40" "y' \<le> py" "py \<le> y' + 40"
        by (simp_all add: tile_covers)
      have "x' = x" using assms(3) g(1) assms(7,8) b(1,2) by (rule grid_unique)
      moreover have "y' = y" using assms(6) g(2) assms(10,11) b(3,4) by (rule grid_unique)
      ultimately show "fill_of t = fill_of (tile x y)" by (simp add: t)
    qed
  qed
  moreover have "stored (fill_of (tile x y)) = fill_of (tile x y)"
    by (simp add: tile_fill clip8_def)
  ultimately show ?thesis using inb assms(9,12) by (simp add: pixel_def pattern_size tile_fill)
qed

lemma range_1280_length: "length (py_range 0 1280 50) = 26"
  by (simp add: py_range.simps)

lemma range_720_length: "length (py_range 0 720 50) = 15"
  by (simp add: py_range.simps)

lemma pattern_length: "length (ops img_720p_pattern) = 390"
  by (simp add: pattern_ops range_1280_length range_720_length)

text \<open>
  Claim C3. The pattern of the 720p image draws each tile whose top-left corner \<open>(x, y)\<close>
  has \<open>x\<close> in \<open>{0, 50, \<dots>, 1250}\<close> and \<open>y\<close> in \<open>{0, 50, \<dots>, 700}\<close> exactly once
  (390 tiles, none twice, none left out), and every pixel of the image inside such a tile
  carries the colour \<open>(x mod 255, y mod 255, (x + y) mod 255)\<close> of the tile's corner.
\<close>

theorem pattern_tiler_grid:
  "distinct (ops img_720p_pattern)
   \<and> set (ops img_720p_pattern)
        = (\<lambda>(x, y). tile x y) `
            {(x, y). 0 \<le> x \<and> x < 1280 \<and> 50 dvd x \<and> 0 \<le> y \<and> y < 720 \<and> 50 dvd y}
   \<and> length (ops img_720p_pattern) = 390
   \<and> (0 \<le> x \<and> x < 1280 \<and> 50 dvd x \<and> 0 \<le> y \<and> y < 720 \<and> 50 dvd y
        \<and> x \<le> px \<and> px \<le> x + 40 \<and> px < 1280 \<and> y \<le> py \<and> py \<le> y + 40 \<and> py < 720
      \<longrightarrow> pixel img_720p_pattern (px, py)
            = Some (RGB (x mod 255) (y mod 255) ((x + y) mod 255)))"
  using pattern_distinct pattern_set pattern_length pattern_pixel[of x y px py] by blast

theorem pattern_tiler_grid_witness:
  "pixel img_720p_pattern (1279, 719) = Some (RGB 230 190 165)"
  using pattern_tiler_grid[of 1250 700 1279 719] by simp

section \<open>The font and the text stamps\<close>

lemma and_then_Inl [simp]: "and_then (Inl e) k = Inl e"
  by (simp add: and_then_def)

lemma and_then_Inr [simp]: "and_then (Inr v) k = k v"
  by (simp add: and_then_def)

lemma print_files: "files (print s w) = files w"
  by (simp add: print_def)

lemma print_stdout: "stdout (print s w) = stdout w @ [s]"
  by (simp add: print_def)

lemma save_stdout: "stdout (save p a w) = stdout w"
  by (simp add: save_def)

lemma save_files: "files (save p a w) = (files w)(p \<mapsto> a)"
  by (simp add: save_def)

lemma draw_ops: "ops (draw im s) = ops im @ [s]"
  by (simp add: draw_def)

text \<open>With a font of the script's own, no text stamp loads anything.\<close>

lemma draw_text_font:
  "draw_text ld d xy s f (Some ft) = Inr (draw_shape d (Text xy s f (Some ft)))"
  by (simp add: draw_text_def)

text \<open>Without one, the first stamp on a fresh drawing object loads the default font.\<close>

lemma draw_text_first:
  assumes "own_font d = None"
  shows "draw_text ld d xy s f None =
           (case ld (loads d) of
              Inl e \<Rightarrow> Inl e
            | Inr ft \<Rightarrow> Inr (draw_shape (d\<lparr>own_font := Some ft, loads := Suc (loads d)\<rparr>)
                           (Text xy s f None)))"
  using assms by (simp add: draw_text_def)

lemma draw_text_second:
  assumes "own_font d = Some ft"
  shows "draw_text ld d xy s f None = Inr (draw_shape d (Text xy s f None))"
  using assms by (simp add: draw_text_def)

lemma draw_shape_own_font: "own_font (draw_shape d s) = own_font d"
  by (simp add: draw_shape_def)

lemma draw_shape_loads: "loads (draw_shape d s) = loads d"
  by (simp add: draw_shape_def)

lemma draw_shape_ops: "ops (canvas (draw_shape d s)) = ops (canvas d) @ [s]"
  by (simp add: draw_shape_def draw_ops)

lemma new_draw_simps:
  "own_font (new_draw im n) = None" "loads (new_draw im n) = n" "canvas (new_draw im n) = im"
  by (simp_all add: new_draw_def)

lemmas drawing_simps =
  draw_shape_own_font draw_shape_loads draw_shape_ops new_draw_simps

text \<open>
  Each of the four images, when it is drawn: with a font \<open>fnt\<close> of the script's own, or
  with none and \<open>ld n\<close> the outcome of the library's own call.
\<close>

lemma images_with_font:
  "\<exists>d. img_4k ld n (Some ft) = Inr d \<and> loads d = n
       \<and> ops (canvas d) =
           [Rectangle (100, 100) (1000, 600) (Named ''red'') (Some (Named ''black'')) 5,
            Ellipse (2000, 500) (3500, 1500) (Named ''green'') (Some (Named ''blue'')) 10,
            Text (200, 200) ''Sample 4K Image'' (Named ''white'') (Some ft),
            Text (200, 300) ''For CompressCLI Testing'' (Named ''white'') (Some ft)]"
  "\<exists>d. img_1080p ld n (Some ft) = Inr d \<and> loads d = n
       \<and> ops (canvas d) = ops img_1080p_gradient @
           [Text (100, 100) ''Sample 1080p Image'' (Named ''white'') (Some ft),
            Text (100, 150) ''Gradient Background'' (Named ''white'') (Some ft)]"
  "\<exists>d. img_720p ld n (Some ft) = Inr d \<and> loads d = n
       \<and> ops (canvas d) = ops img_720p_pattern @
           [Text (50, 50) ''Sample 720p Image'' (Named ''white'') (Some ft),
            Text (50, 100) ''Pattern Background'' (Named ''white'') (Some ft)]"
  "\<exists>d. img_photo ld n (Some ft) = Inr d \<and> loads d = n
       \<and> ops (canvas d) = ops img_photo_bands @
           [Polygon mountains (Named ''gray''),
            Text (100, 1400) ''Sample Photo-like Image'' (Named ''white'') (Some ft),
            Text (100, 1450) ''Landscape Simulation'' (Named ''white'') (Some ft)]"
  by (simp_all add: img_4k_def img_1080p_def img_720p_def img_photo_def draw_text_font
        drawing_simps new_image_def)

lemma images_font_fails:
  assumes "ld n = Inl e"
  shows "img_4k ld n None = Inl e" "img_1080p ld n None = Inl e"
    "img_720p ld n None = Inl e" "img_photo ld n None = Inl e"
  using assms
  by (simp_all add: img_4k_def img_1080p_def img_720p_def img_photo_def draw_text_first
        drawing_simps)

lemma images_font_loaded:
  assumes "ld n = Inr ft"
  shows "\<exists>d. img_4k ld n None = Inr d \<and> loads d = Suc n
       \<and> ops (canvas d) =
           [Rectangle (100, 100) (1000, 600) (Named ''red'') (Some (Named ''black'')) 5,
            Ellipse (2000, 500) (3500, 1500) (Named ''green'') (Some (Named ''blue'')) 10,
            Text (200, 200) ''Sample 4K Image'' (Named ''white'') None,
            Text (200, 300) ''For CompressCLI Testing'' (Named ''white'') None]"
    "\<exists>d. img_1080p ld n None = Inr d \<and> loads d = Suc n
       \<and> ops (canvas d) = ops img_1080p_gradient @
           [Text (100, 100) ''Sample 1080p Image'' (Named ''white'') None,
            Text (100, 150) ''Gradient Background'' (Named ''white'') None]"
    "\<exists>d. img_720p ld n None = Inr d \<and> loads d = Suc n
       \<and> ops (canvas d) = ops img_720p_pattern @
           [Text (50, 50) ''Sample 720p Image'' (Named ''white'') None,
            Text (50, 100) ''Pattern Background'' (Named ''white'') None]"
    "\<exists>d. img_photo ld n None = Inr d \<and> loads d = Suc n
       \<and> ops (canvas d) = ops img_photo_bands @
           [Polygon mountains (Named ''gray''),
            Text (100, 1400) ''Sample Photo-like Image'' (Named ''white'') None,
            Text (100, 1450) ''Landscape Simulation'' (Named ''white'') None]"
  using assms
  by (simp_all add: img_4k_def img_1080p_def img_720p_def img_photo_def draw_text_first
        draw_text_second drawing_simps new_image_def)

lemma and_then_eq_Inr: "and_then r k = Inr v \<longleftrightarrow> (\<exists>u. r = Inr u \<and> k u = Inr v)"
  by (cases r) simp_all

text \<open>A completed image generation prints its four notices and leaves the video file alone.\<close>

lemma images_keep_video:
  assumes "create_sample_images ld w = Inr w'"
  shows "files w' (''examples/samples/sample_video.mp4'')
           = files w (''examples/samples/sample_video.mp4'')"
    and "stdout w' = stdout w @ [''Created sample_4k.png (3840x2160)'',
           ''Created sample_1080p.jpg (1920x1080)'', ''Created sample_720p.webp (1280x720)'',
           ''Created sample_photo.jpg (2048x1536)'']"
  using assms
  by (auto simp: create_sample_images_def Let_def and_then_eq_Inr print_def save_def
        samples_dir_def)

lemma images_complete_with_font:
  assumes "ld 0 = Inr ft"
  shows "\<exists>w'. create_sample_images ld w = Inr w'"
proof -
  obtain d1 where d1: "img_4k ld (Suc 0) (Some ft) = Inr d1" "loads d1 = Suc 0"
    using images_with_font(1)[of ld "Suc 0" ft] by auto
  obtain d2 where d2: "img_1080p ld (Suc 0) (Some ft) = Inr d2" "loads d2 = Suc 0"
    using images_with_font(2)[of ld "Suc 0" ft] by auto
  obtain d3 where d3: "img_720p ld (Suc 0) (Some ft) = Inr d3" "loads d3 = Suc 0"
    using images_with_font(3)[of ld "Suc 0" ft] by auto
  obtain d4 where d4: "img_photo ld (Suc 0) (Some ft) = Inr d4"
    using images_with_font(4)[of ld "Suc 0" ft] by auto
  show ?thesis
    by (simp add: create_sample_images_def Let_def acquire_font_def assms d1 d2 d3 d4)
qed

lemma images_complete_after_first_failure:
  assumes "ld 0 = Inl e" "\<And>n. 0 < n \<Longrightarrow> ld n = Inr ft"
  shows "\<exists>w'. create_sample_images ld w = Inr w'"
proof -
  have l: "ld (Suc n) = Inr ft" for n by (rule assms(2)) simp
  obtain d1 where d1: "img_4k ld (Suc 0) None = Inr d1" "loads d1 = Suc (Suc 0)"
    using images_font_loaded(1)[of ld "Suc 0" ft] l by auto
  obtain d2 where d2: "img_1080p ld (Suc (Suc 0)) None = Inr d2" "loads d2 = Suc (Suc (Suc 0))"
    using images_font_loaded(2)[of ld "Suc (Suc 0)" ft] l by auto
  obtain d3 where d3: "img_720p ld (Suc (Suc (Suc 0))) None = Inr d3"
    "loads d3 = Suc (Suc (Suc (Suc 0)))"
    using images_font_loaded(3)[of ld "Suc (Suc (Suc 0))" ft] l by auto
  obtain d4 where d4: "img_photo ld (Suc (Suc (Suc (Suc 0)))) None = Inr d4"
    using images_font_loaded(4)[of ld "Suc (Suc (Suc (Suc 0)))" ft] l by auto
  show ?thesis
    by (simp add: create_sample_images_def Let_def acquire_font_def assms(1) d1 d2 d3 d4)
qed

lemma images_fail_without_font:
  assumes "ld 0 = Inl e" "ld (Suc 0) = Inl e'"
  shows "create_sample_images ld w = Inl e'"
  using images_font_fails(1)[of ld "Suc 0" e'] assms
  by (simp add: create_sample_images_def Let_def acquire_font_def)

text \<open>
  Claim C7. The bare \<^verbatim>\<open>except\<close> absorbs the exception of the script's own call of
  \<^verbatim>\<open>ImageFont.load_default()\<close> and leaves \<open>font = None\<close>. But with no font given, the
  first \<^verbatim>\<open>draw.text\<close> of line 30 makes the library call \<^verbatim>\<open>load_default\<close> again: when
  the default font cannot be loaded at all, that second exception leaves
  \<open>create_sample_images\<close> and the whole run, before any image is saved. The image
  generation completes when the font is available, and also when only the script's own
  call fails.
\<close>

theorem font_failure_escapes:
  "acquire_font (Inl e) = None
   \<and> create_sample_images (\<lambda>n. Inl e) w = Inl e
   \<and> main (\<lambda>n. Inl e) glyph cv2_available w = Inl e
   \<and> (\<exists>w'. create_sample_images (\<lambda>n. Inr ft) w = Inr w')
   \<and> (\<exists>w'. create_sample_images (\<lambda>n. if n = 0 then Inl e else Inr ft) w = Inr w')"
proof -
  have "create_sample_images (\<lambda>n. Inl e) v = Inl e" for v
    using images_fail_without_font[of "\<lambda>n. Inl e" e e v] by simp
  moreover have "\<exists>w'. create_sample_images (\<lambda>n. Inr ft) w = Inr w'"
    using images_complete_with_font[of "\<lambda>n. Inr ft" ft w] by simp
  moreover have "\<exists>w'. create_sample_images (\<lambda>n. if n = 0 then Inl e else Inr ft) w = Inr w'"
    using images_complete_after_first_failure[of "\<lambda>n. if n = 0 then Inl e else Inr ft" e ft w]
    by simp
  ultimately show ?thesis by (simp add: acquire_font_def main_def)
qed

section \<open>The optional video\<close>

text \<open>
  Claim C6. When \<^verbatim>\<open>import cv2\<close> fails, \<open>create_sample_video\<close> returns normally, prints
  the two notices and leaves every file as it was, so no video file is written. In a
  whole run whose default font loads, the files are then exactly those the image generation
  has left; and for every outcome of the image generation, a run without cv2 ends as the
  image generation does, with its files.
\<close>

theorem video_skipped_without_cv2:
  "create_sample_video glyph False w =
     Inr (w\<lparr>stdout := stdout w @ [''OpenCV not available, skipping video creation'',
        ''To create sample video, install: pip install opencv-python numpy'']\<rparr>)
   \<and> (ld 0 = Inr ft \<longrightarrow>
        (\<exists>w1 w2. create_sample_images ld
                  (print ''Creating sample files for CompressCLI testing...'' w) = Inr w1
        \<and> main ld glyph False w = Inr w2
        \<and> files w2 = files w1
        \<and> files w2 (''examples/samples/sample_video.mp4'')
              = files w (''examples/samples/sample_video.mp4'')))
   \<and> (case create_sample_images ld
               (print ''Creating sample files for CompressCLI testing...'' w) of
         Inl e \<Rightarrow> main ld glyph False w = Inl e
       | Inr w1 \<Rightarrow> \<exists>w2. main ld glyph False w = Inr w2 \<and> files w2 = files w1)"
proof -
  have skip: "create_sample_video glyph False v =
     Inr (v\<lparr>stdout := stdout v @ [''OpenCV not available, skipping video creation'',
        ''To create sample video, install: pip install opencv-python numpy'']\<rparr>)" for v
    by (simp add: create_sample_video_def except_import_error_def video_body_def print_def)
  have run: "\<exists>w2. main ld glyph False w = Inr w2 \<and> files w2 = files w1
      \<and> files w2 (''examples/samples/sample_video.mp4'')
            = files w (''examples/samples/sample_video.mp4'')"
    if w1: "create_sample_images ld
        (print ''Creating sample files for CompressCLI testing...'' w) = Inr w1" for w1
  proof -
    have "files w1 (''examples/samples/sample_video.mp4'')
        = files w (''examples/samples/sample_video.mp4'')"
      using images_keep_video(1)[OF w1] by (simp add: print_files)
    moreover have "\<exists>w2. main ld glyph False w = Inr w2 \<and> files w2 = files w1"
      unfolding main_def w1 sum.case skip by (simp add: print_files)
    ultimately show ?thesis by auto
  qed
  have a: "\<exists>w1 w2. create_sample_images ld
                  (print ''Creating sample files for CompressCLI testing...'' w) = Inr w1
        \<and> main ld glyph False w = Inr w2
        \<and> files w2 = files w1
        \<and> files w2 (''examples/samples/sample_video.mp4'')
              = files w (''examples/samples/sample_video.mp4'')" if "ld 0 = Inr ft"
    using images_complete_with_font[of ld ft
        "print ''Creating sample files for CompressCLI testing...'' w"] that run by blast
  have b: "case create_sample_images ld
               (print ''Creating sample files for CompressCLI testing...'' w) of
         Inl e \<Rightarrow> main ld glyph False w = Inl e
       | Inr w1 \<Rightarrow> \<exists>w2. main ld glyph False w = Inr w2 \<and> files w2 = files w1"
  proof (cases "create_sample_images ld
               (print ''Creating sample files for CompressCLI testing...'' w)")
    case (Inl e)
    then show ?thesis by (simp add: main_def)
  next
    case (Inr w1)
    then show ?thesis using run[of w1] by auto
  qed
  from skip a b show ?thesis by blast
qed

theorem video_skipped_without_cv2_witness:
  "\<exists>w2. main (\<lambda>n. Inr DefaultFont) (\<lambda>s org p. p = org) False \<lparr>files = Map.empty, stdout = []\<rparr>
          = Inr w2
     \<and> files w2 (''examples/samples/sample_video.mp4'') = None"
  using video_skipped_without_cv2[of "\<lambda>s org p. p = org" "\<lparr>files = Map.empty, stdout = []\<rparr>"
      "\<lambda>n. Inr DefaultFont" DefaultFont]
  by auto

section \<open>The video frames\<close>

lemma set_pixel_texts: "texts (set_pixel f y x c) = texts f"
  by (cases c) (simp add: set_pixel_def)

lemma set_pixel_rows: "rows (set_pixel f y x c) = rows f"
  by (cases c) (simp add: set_pixel_def)

lemma set_pixel_cols: "cols (set_pixel f y x c) = cols f"
  by (cases c) (simp add: set_pixel_def)

lemma set_pixel_data:
  "data (set_pixel f y x (c0, c1, c2)) yx
     = (if yx = (y, x) then (uint8 c0, uint8 c1, uint8 c2) else data f yx)"
  by (simp add: set_pixel_def)

lemma foldl_set_pixel_data:
  "data (foldl (\<lambda>f x. set_pixel f y x (b x, g, r x)) f xs) (y', x')
     = (if y' = y \<and> x' \<in> set xs then (uint8 (b x'), uint8 g, uint8 (r x')) else data f (y', x'))"
  by (induction xs arbitrary: f) (auto simp: set_pixel_data)

lemma foldl_set_pixel_texts:
  "texts (foldl (\<lambda>f x. set_pixel f y x (c x)) f xs) = texts f"
  by (induction xs arbitrary: f) (simp_all add: set_pixel_texts)

lemma foldl_set_pixel_rows:
  "rows (foldl (\<lambda>f x. set_pixel f y x (c x)) f xs) = rows f"
  by (induction xs arbitrary: f) (simp_all add: set_pixel_rows)

lemma foldl_set_pixel_cols:
  "cols (foldl (\<lambda>f x. set_pixel f y x (c x)) f xs) = cols f"
  by (induction xs arbitrary: f) (simp_all add: set_pixel_cols)

lemma fill_row_data:
  "data (fill_row k w f y) (y', x')
     = (if y' = y \<and> 0 \<le> x' \<and> x' < w
        then (uint8 (video_b k x' y), uint8 (video_g k y), uint8 (video_r k x'))
        else data f (y', x'))"
  by (simp add: fill_row_def foldl_set_pixel_data py_range_set)

lemma fill_row_texts: "texts (fill_row k w f y) = texts f"
  by (simp add: fill_row_def foldl_set_pixel_texts)

lemma fill_row_rows: "rows (fill_row k w f y) = rows f"
  by (simp add: fill_row_def foldl_set_pixel_rows)

lemma fill_row_cols: "cols (fill_row k w f y) = cols f"
  by (simp add: fill_row_def foldl_set_pixel_cols)

lemma fill_field_data:
  "data (foldl (fill_row k w) f ys) (y', x')
     = (if y' \<in> set ys \<and> 0 \<le> x' \<and> x' < w
        then (uint8 (video_b k x' y'), uint8 (video_g k y'), uint8 (video_r k x'))
        else data f (y', x'))"
  by (induction ys arbitrary: f) (auto simp: fill_row_data)

lemma fill_field_texts: "texts (foldl (fill_row k w) f ys) = texts f"
  by (induction ys arbitrary: f) (simp_all add: fill_row_texts)

lemma fill_field_rows: "rows (foldl (fill_row k w) f ys) = rows f"
  by (induction ys arbitrary: f) (simp_all add: fill_row_rows)

lemma fill_field_cols: "cols (foldl (fill_row k w) f ys) = cols f"
  by (induction ys arbitrary: f) (simp_all add: fill_row_cols)

lemma field_canvas_ok:
  assumes "0 \<le> w" "0 \<le> h"
  shows "\<exists>f. field_canvas w h k = Inr f \<and> rows f = h \<and> cols f = w \<and> texts f = []
           \<and> (\<forall>x y. data f (y, x)
                 = (if 0 \<le> y \<and> y < h \<and> 0 \<le> x \<and> x < w
                    then (uint8 (video_b k x y), uint8 (video_g k y), uint8 (video_r k x))
                    else (0, 0, 0)))"
  using assms
  by (simp add: field_canvas_def np_zeros_def fill_field_data fill_field_texts fill_field_rows
        fill_field_cols py_range_set)


text \<open>A stamp on a non-empty array whitens the pixels of the array its glyphs cover.\<close>

lemma put_text_ok:
  assumes "0 < rows f" "0 < cols f"
  shows "\<exists>f'. put_text glyph f s org = Inr f' \<and> rows f' = rows f \<and> cols f' = cols f
           \<and> texts f' = texts f @ [(s, org)]
           \<and> (\<forall>x y. data f' (y, x)
                 = (if 0 \<le> y \<and> y < rows f \<and> 0 \<le> x \<and> x < cols f \<and> glyph s org (x, y)
                    then (255, 255, 255) else data f (y, x)))"
  using assms by (simp add: put_text_def)


text \<open>
  A frame of positive size: the field, white wherever one of the three stamps covers the
  pixel, and the three texts in call order.
\<close>

lemma make_frame_ok:
  assumes "0 < w" "0 < h"
  shows "\<exists>f. make_frame glyph w h fps tot k = Inr f \<and> rows f = h \<and> cols f = w
           \<and> texts f = [(counter_label k tot, (50, 50)), (time_label k fps, (50, 100)),
                         (''Sample Video for CompressCLI'', (50, h - 50))]
           \<and> (\<forall>x y. data f (y, x)
                 = (if 0 \<le> y \<and> y < h \<and> 0 \<le> x \<and> x < w
                    then (if glyph (counter_label k tot) (50, 50) (x, y)
                             \<or> glyph (time_label k fps) (50, 100) (x, y)
                             \<or> glyph ''Sample Video for CompressCLI'' (50, h - 50) (x, y)
                          then (255, 255, 255)
                          else (uint8 (video_b k x y), uint8 (video_g k y), uint8 (video_r k x)))
                    else (0, 0, 0)))"
proof -
  from field_canvas_ok[of w h k] assms obtain f0 where
    f0: "field_canvas w h k = Inr f0" "rows f0 = h" "cols f0 = w" "texts f0 = []"
      "\<forall>x y. data f0 (y, x)
                 = (if 0 \<le> y \<and> y < h \<and> 0 \<le> x \<and> x < w
                    then (uint8 (video_b k x y), uint8 (video_g k y), uint8 (video_r k x))
                    else (0, 0, 0))"
    by auto
  from put_text_ok[of f0 glyph "counter_label k tot" "(50, 50)"] assms f0(2,3) obtain f1 where
    f1: "put_text glyph f0 (counter_label k tot) (50, 50) = Inr f1" "rows f1 = h" "cols f1 = w"
      "texts f1 = texts f0 @ [(counter_label k tot, (50, 50))]"
      "\<forall>x y. data f1 (y, x)
         = (if 0 \<le> y \<and> y < h \<and> 0 \<le> x \<and> x < w \<and> glyph (counter_label k tot) (50, 50) (x, y)
            then (255, 255, 255) else data f0 (y, x))"
    by auto
  from put_text_ok[of f1 glyph "time_label k fps" "(50, 100)"] assms f1(2,3) obtain f2 where
    f2: "put_text glyph f1 (time_label k fps) (50, 100) = Inr f2" "rows f2 = h" "cols f2 = w"
      "texts f2 = texts f1 @ [(time_label k fps, (50, 100))]"
      "\<forall>x y. data f2 (y, x)
         = (if 0 \<le> y \<and> y < h \<and> 0 \<le> x \<and> x < w \<and> glyph (time_label k fps) (50, 100) (x, y)
            then (255, 255, 255) else data f1 (y, x))"
    by auto
  from put_text_ok[of f2 glyph "''Sample Video for CompressCLI''" "(50, h - 50)"] assms f2(2,3)
  obtain f3 where
    f3: "put_text glyph f2 ''Sample Video for CompressCLI'' (50, h - 50) = Inr f3"
      "rows f3 = h" "cols f3 = w"
      "texts f3 = texts f2 @ [(''Sample Video for CompressCLI'', (50, h - 50))]"
      "\<forall>x y. data f3 (y, x)
         = (if 0 \<le> y \<and> y < h \<and> 0 \<le> x \<and> x < w
                \<and> glyph ''Sample Video for CompressCLI'' (50, h - 50) (x, y)
            then (255, 255, 255) else data f2 (y, x))"
    by auto
  have "make_frame glyph w h fps tot k = Inr f3"
    by (simp add: make_frame_def f0(1) f1(1) f2(1) f3(1))
  moreover have "texts f3 = [(counter_label k tot, (50, 50)), (time_label k fps, (50, 100)),
                         (''Sample Video for CompressCLI'', (50, h - 50))]"
    by (simp add: f3(4) f2(4) f1(4) f0(4))
  moreover have "data f3 (y, x)
                 = (if 0 \<le> y \<and> y < h \<and> 0 \<le> x \<and> x < w
                    then (if glyph (counter_label k tot) (50, 50) (x, y)
                             \<or> glyph (time_label k fps) (50, 100) (x, y)
                             \<or> glyph ''Sample Video for CompressCLI'' (50, h - 50) (x, y)
                          then (255, 255, 255)
                          else (uint8 (video_b k x y), uint8 (video_g k y), uint8 (video_r k x)))
                    else (0, 0, 0))" for x y
    by (simp add: f3(5) f2(5) f1(5) f0(5))
  ultimately show ?thesis using f3(2,3) by blast
qed


lemma write_frames_map:
  assumes "\<And>k. k \<in> set ks \<Longrightarrow> make_frame glyph w h fps tot k = Inr (g k)"
  shows "write_frames glyph w h fps tot ks out = Inr (out @ map g ks)"
  using assms by (induction ks arbitrary: out) simp_all

lemma video_of_size_run:
  assumes "0 < wd" "0 < ht"
  shows "\<exists>w'. video_of_size glyph wd ht w = Inr w'
     \<and> video_frames w' = map (\<lambda>k. projr (make_frame glyph wd ht 30 300 k)) [0..299]
     \<and> stdout w' = stdout w @ [''Created sample_video.mp4 ('' @ py_str wd @ ''x'' @ py_str ht
                                 @ '', 10s)'']"
proof -
  have "make_frame glyph wd ht 30 300 k = Inr (projr (make_frame glyph wd ht 30 300 k))" for k
    using make_frame_ok[OF assms, of glyph 30 300 k] by auto
  then have "write_frames glyph wd ht 30 300 (py_range 0 300 1) []
      = Inr ([] @ map (\<lambda>k. projr (make_frame glyph wd ht 30 300 k)) (py_range 0 300 1))"
    by (intro write_frames_map)
  moreover have "py_str 10 = ''10''"
    by (simp add: py_str_def str_nat.simps digit_char_def)
  ultimately show ?thesis
    by (simp add: video_of_size_def Let_def py_range_upto video_frames_def
          save_def print_def samples_dir_def)
qed


lemma video_run:
  "\<exists>w'. create_sample_video glyph True w = Inr w'
     \<and> video_frames w' = map (\<lambda>k. projr (make_frame glyph 1280 720 30 300 k)) [0..299]
     \<and> stdout w' = stdout w @ [''Created sample_video.mp4 (1280x720, 10s)'']"
proof -
  have "py_str 1280 = ''1280''" "py_str 720 = ''720''"
    by (simp_all add: py_str_def str_nat.simps digit_char_def)
  then show ?thesis
    using video_of_size_run[of 1280 720 glyph w]
    by (auto simp: create_sample_video_def except_import_error_def video_body_def)
qed

lemma upto_nth_map:
  assumes "0 \<le> k" "k < 300"
  shows "map g [0..299] ! nat k = g k"
proof -
  have "nat k < length [0..299::int]" using assms by simp
  moreover have "[0..299] ! nat k = 0 + int (nat k)" using assms by (intro nth_upto) simp
  ultimately show ?thesis using assms by simp
qed

lemma video_frames_nth:
  "\<exists>w'. create_sample_video glyph True w = Inr w' \<and> length (video_frames w') = 300
     \<and> stdout w' = stdout w @ [''Created sample_video.mp4 (1280x720, 10s)'']
     \<and> (\<forall>k. 0 \<le> k \<and> k < 300 \<longrightarrow>
           make_frame glyph 1280 720 30 300 k = Inr (video_frames w' ! nat k))"
proof -
  from video_run[of glyph w] obtain w' where w': "create_sample_video glyph True w = Inr w'"
    "video_frames w' = map (\<lambda>k. projr (make_frame glyph 1280 720 30 300 k)) [0..299]"
    "stdout w' = stdout w @ [''Created sample_video.mp4 (1280x720, 10s)'']"
    by blast
  have ok: "make_frame glyph 1280 720 30 300 k
      = Inr (projr (make_frame glyph 1280 720 30 300 k))" for k
    using make_frame_ok[of 1280 720 glyph 30 300 k] by auto
  have "make_frame glyph 1280 720 30 300 k = Inr (video_frames w' ! nat k)"
    if "0 \<le> k" "k < 300" for k
    using ok[of k] upto_nth_map[OF that, of "\<lambda>k. projr (make_frame glyph 1280 720 30 300 k)"]
    by (simp add: w'(2))
  moreover have "length (video_frames w') = 300" by (simp add: w'(2))
  ultimately show ?thesis using w'(1,3) by blast
qed

lemma make_frame_texts:
  assumes "make_frame glyph 1280 720 30 300 k = Inr f"
  shows "texts f = [(counter_label k 300, (50, 50)), (time_label k 30, (50, 100)),
                    (''Sample Video for CompressCLI'', (50, 670))]"
  using make_frame_ok[of 1280 720 glyph 30 300 k] assms by auto

lemma counter_label_300: "counter_label k 300 = ''Frame '' @ py_str (k + 1) @ ''/300''"
  by (simp add: counter_label_def str_300)

lemma counter_first: "counter_label 0 300 = ''Frame 1/300''"
  by (simp add: counter_label_def py_str_def str_nat.simps digit_char_def)

lemma counter_last: "counter_label 299 300 = ''Frame 300/300''"
  by (simp add: counter_label_def py_str_def str_nat.simps digit_char_def)

text \<open>
  Claim C9. With cv2 available the video has 300 frames, and the first text stamped on the
  frame of (0-based) index \<open>k\<close> is \<open>Frame k+1/300\<close>: a 1-based counter that runs from
  \<open>Frame 1/300\<close> to \<open>Frame 300/300\<close>.
\<close>

theorem frame_counter_label:
  "\<exists>w'. create_sample_video glyph True w = Inr w' \<and> length (video_frames w') = 300
     \<and> (0 \<le> k \<and> k < 300 \<longrightarrow>
          texts (video_frames w' ! nat k) ! 0 = (''Frame '' @ py_str (k + 1) @ ''/300'', (50, 50)))
     \<and> counter_label 0 300 = ''Frame 1/300'' \<and> counter_label 299 300 = ''Frame 300/300''"
proof -
  from video_frames_nth[of glyph w] obtain w' where
    w': "create_sample_video glyph True w = Inr w'"
    "length (video_frames w') = 300"
    "\<forall>k. 0 \<le> k \<and> k < 300 \<longrightarrow>
       make_frame glyph 1280 720 30 300 k = Inr (video_frames w' ! nat k)"
    by blast
  have "texts (video_frames w' ! nat k) ! 0 = (''Frame '' @ py_str (k + 1) @ ''/300'', (50, 50))"
    if "0 \<le> k \<and> k < 300"
    using make_frame_texts[of glyph k "video_frames w' ! nat k"] w'(3) that
    by (simp add: counter_label_300)
  then show ?thesis using w'(1,2) counter_first counter_last by blast
qed

theorem frame_counter_label_witness:
  "\<exists>w'. create_sample_video (\<lambda>s org p. p = org) True \<lparr>files = Map.empty, stdout = []\<rparr> = Inr w'
     \<and> texts (video_frames w' ! 6) ! 0 = (''Frame 7/300'', (50, 50))"
proof -
  have "py_str 7 = ''7''" by (simp add: py_str_def str_nat.simps digit_char_def)
  then show ?thesis
    using frame_counter_label[of "\<lambda>s org p. p = org" "\<lparr>files = Map.empty, stdout = []\<rparr>" 6]
    by auto
qed



section \<open>Frame order and the elapsed-time stamp\<close>

lemma rhe_unique:
  assumes "\<bar>x - real_of_int n\<bar> < 1 / 2"
  shows "round_half_even x = n"
proof -
  have "\<bar>real_of_int (round_half_even x) - real_of_int n\<bar> < 1"
    using rhe_upper[of x] rhe_lower[of x] assms by linarith
  then have "\<bar>real_of_int (round_half_even x - n)\<bar> < 1" by simp
  then have "\<bar>round_half_even x - n\<bar> < 1" by linarith
  then show ?thesis by linarith
qed

lemma fdiv_nonneg: "0 \<le> x \<Longrightarrow> 0 \<le> y \<Longrightarrow> 0 \<le> fdiv x y"
  by (simp add: fdiv_def rnd_nonneg)

lemma pow2_m1022_small: "(2::real) powi (- 1022) \<le> 1 / 1048576"
proof -
  have "(2::real) powi (- 1022) \<le> 2 powi (- 20)" by (rule iffD2[OF pow2_le_iff]) simp
  also have "(2::real) powi (- 20) = 1 / 1048576" by (simp add: power_int_minus)
  finally show ?thesis .
qed

lemma time_tenths:
  assumes "0 \<le> k" "k < 300"
  shows "round_half_even (\<bar>fdiv (of_int k) (of_int 30)\<bar> * 10) = (k + 1) div 3"
proof (cases "k = 0")
  case True
  then show ?thesis using rhe_of_int[of 0] by (simp add: fdiv_def rnd_zero)
next
  case False
  define q :: real where "q = of_int k / 30"
  have q: "1 / 30 \<le> q" "q \<le> 10" using assms False by (simp_all add: q_def)
  have "2 powi (- 1022) \<le> \<bar>q\<bar>" using pow2_m1022_small q by linarith
  then have "\<bar>rnd q - q\<bar> \<le> \<bar>q\<bar> / 2 ^ 53" by (rule rnd_err)
  also have "\<dots> \<le> 10 / 2 ^ 53" using q by (simp add: divide_right_mono)
  finally have err: "\<bar>rnd q - q\<bar> \<le> 10 / 2 ^ 53" .
  have nn: "0 \<le> rnd q" using q by (intro rnd_nonneg) linarith
  define T where "T = (k + 1) div 3"
  have "3 * T - 1 \<le> k \<and> k \<le> 3 * T + 1" unfolding T_def by presburger
  then have "\<bar>q * 10 - real_of_int T\<bar> \<le> 1 / 3"
    unfolding q_def by (auto simp: abs_le_iff field_simps; linarith)
  moreover have "(10::real) / 2 ^ 53 \<le> 1 / 100" by simp
  with err have "\<bar>rnd q - q\<bar> \<le> 1 / 100" by linarith
  ultimately have "\<bar>rnd q * 10 - real_of_int T\<bar> < 1 / 2" by linarith
  then have "round_half_even (rnd q * 10) = T" by (rule rhe_unique)
  then show ?thesis using nn by (simp add: fdiv_def q_def T_def)
qed

lemma time_label_30:
  assumes "0 \<le> k" "k < 300"
  shows "time_label k 30 = ''Time: '' @ str_nat (nat ((k + 1) div 3) div 10) @ ''.''
           @ [digit_char (nat ((k + 1) div 3) mod 10)] @ ''s''"
proof -
  have "0 \<le> fdiv (real_of_int k) 30" using assms by (intro fdiv_nonneg) simp_all
  then show ?thesis
    using time_tenths[OF assms] by (simp add: time_label_def format_1f_def Let_def)
qed

lemma nearest_tenth:
  "\<bar>real_of_int ((k + 1) div 3) / 10 - real_of_int k / 30\<bar> \<le> 1 / 30"
proof -
  have "3 * ((k + 1) div 3) - 1 \<le> k \<and> k \<le> 3 * ((k + 1) div 3) + 1" by presburger
  then show ?thesis by (simp add: abs_le_iff field_simps)
qed

lemma frame_range: "py_range 0 (30 * 10) 1 = [0..299]"
  by (simp add: py_range_upto)

text \<open>
  Claim C4. With 30 frames per second and 10 seconds the frame numbers run through
  \<open>0, 1, \<dots>, 299\<close> in increasing order, the writer receives exactly 300 frames, the one
  at position \<open>k\<close> being the frame rendered for frame number \<open>k\<close>, and the second stamp
  on that frame is \<open>Time: t s\<close> (printed without the blank) where \<open>t\<close> is \<open>k/30\<close> to one
  decimal place: the tenths \<open>(k + 1) div 3\<close> are the nearest to \<open>k/3\<close>.
\<close>

theorem frames_in_order:
  "\<exists>w'. create_sample_video glyph True w = Inr w' \<and> length (video_frames w') = 300
     \<and> py_range 0 (30 * 10) 1 = [0..299]
     \<and> sorted_wrt (<) (py_range 0 (30 * 10) 1)
     \<and> set (py_range 0 (30 * 10) 1) = {0..299}
     \<and> (0 \<le> k \<and> k < 300 \<longrightarrow>
          make_frame glyph 1280 720 30 300 k = Inr (video_frames w' ! nat k)
          \<and> texts (video_frames w' ! nat k) ! 1 =
              (''Time: '' @ str_nat (nat ((k + 1) div 3) div 10) @ ''.''
                 @ [digit_char (nat ((k + 1) div 3) mod 10)] @ ''s'', (50, 100))
          \<and> \<bar>real_of_int ((k + 1) div 3) / 10 - real_of_int k / 30\<bar> \<le> 1 / 30)"
proof -
  from video_frames_nth[of glyph w] obtain w' where
    w': "create_sample_video glyph True w = Inr w'"
    "length (video_frames w') = 300"
    "\<forall>k. 0 \<le> k \<and> k < 300 \<longrightarrow>
       make_frame glyph 1280 720 30 300 k = Inr (video_frames w' ! nat k)"
    by blast
  have "texts (video_frames w' ! nat k) ! 1 =
      (''Time: '' @ str_nat (nat ((k + 1) div 3) div 10) @ ''.''
         @ [digit_char (nat ((k + 1) div 3) mod 10)] @ ''s'', (50, 100))"
    if "0 \<le> k \<and> k < 300"
    using make_frame_texts[of glyph k "video_frames w' ! nat k"] w'(3) that time_label_30[of k]
    by simp
  moreover have "set (py_range 0 (30 * 10) 1) = {0..299}"
    by (simp only: frame_range set_upto)
  ultimately show ?thesis
    using w' frame_range py_range_sorted[of 0 "30 * 10" 1] nearest_tenth[of k] by blast
qed

theorem frames_in_order_witness:
  "\<exists>w'. create_sample_video (\<lambda>s org p. p = org) True \<lparr>files = Map.empty, stdout = []\<rparr> = Inr w'
     \<and> texts (video_frames w' ! 299) ! 1 = (''Time: 10.0s'', (50, 100))"
proof -
  have "str_nat 10 = ''10''" "digit_char 0 = CHR ''0''"
    by (simp_all add: str_nat.simps digit_char_def)
  then show ?thesis
    using frames_in_order[of "\<lambda>s org p. p = org" "\<lparr>files = Map.empty, stdout = []\<rparr>" 299]
    by auto
qed

section \<open>Colour values of the gradient, the bands and the video field\<close>

lemma sky_points:
  "sky_color_val 0 = 135" "sky_color_val 420 = 235" "sky_color_val 421 = 236"
  "sky_color_val 499 = 254"
  by code_simp+

lemma ground_points: "ground_color_val 500 = 34" "ground_color_val 1535 = 133"
  by code_simp+

lemma gradient_points: "gradient_color_val 0 = 0" "gradient_color_val 1919 = 254"
  by code_simp+

lemma gradient_multiples:
  "list_all (\<lambda>j. gradient_color_val (128 * j) = 17 * j) [0..14]"
  by code_simp

lemma py_int_mono: assumes "x \<le> y" shows "py_int x \<le> py_int y"
proof (cases "0 \<le> x")
  case True
  then show ?thesis using assms by (simp add: py_int_def floor_mono)
next
  case False
  show ?thesis
  proof (cases "0 \<le> y")
    case True
    have "\<lceil>x\<rceil> \<le> 0" using False by (simp add: ceiling_le_iff)
    moreover have "0 \<le> \<lfloor>y\<rfloor>" using True by simp
    ultimately have "\<lceil>x\<rceil> \<le> \<lfloor>y\<rfloor>" by linarith
    then show ?thesis using False True by (simp add: py_int_def)
  next
    case False
    then show ?thesis using assms \<open>\<not> 0 \<le> x\<close> by (simp add: py_int_def ceiling_mono)
  qed
qed

lemma py_int_of_int: "py_int (of_int n) = n"
  by (simp add: py_int_def)

lemma fdiv_mono: "0 < c \<Longrightarrow> x \<le> y \<Longrightarrow> fdiv x c \<le> fdiv y c"
  unfolding fdiv_def by (intro rnd_mono divide_right_mono) simp_all

lemma fmul_mono_right: "0 \<le> c \<Longrightarrow> x \<le> y \<Longrightarrow> fmul c x \<le> fmul c y"
  unfolding fmul_def by (intro rnd_mono mult_left_mono)

lemma fmul_mono_left: "0 \<le> c \<Longrightarrow> x \<le> y \<Longrightarrow> fmul x c \<le> fmul y c"
  unfolding fmul_def by (intro rnd_mono mult_right_mono)

lemma fadd_mono_right: "x \<le> y \<Longrightarrow> fadd c x \<le> fadd c y"
  unfolding fadd_def by (intro rnd_mono) simp

lemma gradient_color_val_mono: "i \<le> j \<Longrightarrow> gradient_color_val i \<le> gradient_color_val j"
  unfolding gradient_color_val_def
  by (intro py_int_mono fmul_mono_right fdiv_mono) simp_all

lemma sky_color_val_mono: "i \<le> j \<Longrightarrow> sky_color_val i \<le> sky_color_val j"
  unfolding sky_color_val_def
  by (intro py_int_mono fadd_mono_right fmul_mono_left fdiv_mono) simp_all

lemma ground_color_val_mono: "i \<le> j \<Longrightarrow> ground_color_val i \<le> ground_color_val j"
  unfolding ground_color_val_def
  by (intro py_int_mono fadd_mono_right fmul_mono_left fdiv_mono) simp_all

lemma gradient_range:
  assumes "0 \<le> i" "i < 1920"
  shows "0 \<le> gradient_color_val i" "gradient_color_val i \<le> 254"
  using gradient_color_val_mono[of 0 i] gradient_color_val_mono[of i 1919] assms
  by (simp_all add: gradient_points)

lemma sky_range:
  assumes "0 \<le> y" "y < 500"
  shows "135 \<le> sky_color_val y" "sky_color_val y \<le> 254"
  using sky_color_val_mono[of 0 y] sky_color_val_mono[of y 499] assms
  by (simp_all add: sky_points)

lemma sky_range_420:
  assumes "y \<le> 420"
  shows "sky_color_val y \<le> 235"
  using sky_color_val_mono[of y 420] assms by (simp add: sky_points)

lemma ground_range:
  assumes "500 \<le> y" "y < 1536"
  shows "34 \<le> ground_color_val y" "ground_color_val y \<le> 133"
  using ground_color_val_mono[of 500 y] ground_color_val_mono[of y 1535] assms
  by (simp_all add: ground_points)

lemma np_sin_range: "- 1 \<le> np_sin x" "np_sin x \<le> 1"
proof -
  have "rnd (- 1) \<le> rnd (sin x)" by (rule rnd_mono) simp
  moreover have "rnd (sin x) \<le> rnd 1" by (rule rnd_mono) simp
  moreover have "rnd 1 = 1" using rnd_of_int[of 1] by simp
  moreover have "rnd (- 1) = - 1" using rnd_of_int[of "- 1"] by simp
  ultimately show "- 1 \<le> np_sin x" "np_sin x \<le> 1" by (simp_all add: np_sin_def)
qed

lemma channel_range: "1 \<le> channel k p d" "channel k p d \<le> 255"
proof -
  define s where "s = np_sin (phase_arg k p d)"
  have s: "- 1 \<le> s" "s \<le> 1" by (simp_all add: s_def np_sin_range)
  have "fmul 127 (- 1) \<le> fmul 127 s" using s by (intro fmul_mono_right) simp_all
  moreover have "fmul 127 s \<le> fmul 127 1" using s by (intro fmul_mono_right) simp_all
  moreover have "fmul 127 1 = 127" using rnd_of_int[of 127] by (simp add: fmul_def)
  moreover have "fmul 127 (- 1) = - 127" using rnd_of_int[of "- 127"] by (simp add: fmul_def)
  ultimately have m: "- 127 \<le> fmul 127 s" "fmul 127 s \<le> 127" by simp_all
  have "fadd 128 (- 127) \<le> fadd 128 (fmul 127 s)" using m by (intro fadd_mono_right)
  moreover have "fadd 128 (fmul 127 s) \<le> fadd 128 127" using m by (intro fadd_mono_right)
  moreover have "fadd 128 127 = 255" using rnd_of_int[of 255] by (simp add: fadd_def)
  moreover have "fadd 128 (- 127) = 1" using rnd_of_int[of 1] by (simp add: fadd_def)
  ultimately have a: "1 \<le> fadd 128 (fmul 127 s)" "fadd 128 (fmul 127 s) \<le> 255" by simp_all
  have "py_int 1 \<le> py_int (fadd 128 (fmul 127 s))" using a by (intro py_int_mono)
  moreover have "py_int (fadd 128 (fmul 127 s)) \<le> py_int 255" using a by (intro py_int_mono)
  ultimately show "1 \<le> channel k p d" "channel k p d \<le> 255"
    using py_int_of_int[of 1] py_int_of_int[of 255] by (simp_all add: channel_def s_def)
qed

lemma rnd_close:
  assumes "2 powi (- 1022) \<le> \<bar>x\<bar>" "\<bar>x\<bar> \<le> B"
  shows "\<bar>rnd x - x\<bar> \<le> B / 2 ^ 53"
proof -
  have "\<bar>rnd x - x\<bar> \<le> \<bar>x\<bar> / 2 ^ 53" using assms(1) by (rule rnd_err)
  also have "\<dots> \<le> B / 2 ^ 53" using assms(2) by (simp add: divide_right_mono)
  finally show ?thesis .
qed

lemma gradient_generic:
  assumes "0 \<le> x" "x < 1920" "\<not> 128 dvd x"
  shows "gradient_color_val x = (255 * x) div 1920"
proof -
  define q :: real where "q = of_int x / 1920"
  define r1 where "r1 = rnd q"
  define p where "p = 255 * r1"
  define r2 where "r2 = rnd p"
  define n where "n = (255 * x) div 1920"
  have x1: "1 \<le> x" using assms by (cases "x = 0") auto
  have q: "1 / 1920 \<le> q" "q \<le> 1" using assms x1 by (simp_all add: q_def)
  have small: "(2::real) powi (- 1022) \<le> 1 / 1048576" by (rule pow2_m1022_small)
  have "2 powi (- 1022) \<le> \<bar>q\<bar>" using small q by linarith
  moreover have "\<bar>q\<bar> \<le> 1" using q by linarith
  ultimately have "\<bar>r1 - q\<bar> \<le> 1 / 2 ^ 53" unfolding r1_def by (rule rnd_close)
  moreover have c1: "(1::real) / 2 ^ 53 \<le> 1 / 10000" by simp
  ultimately have e1: "\<bar>r1 - q\<bar> \<le> 1 / 2 ^ 53" "\<bar>r1 - q\<bar> \<le> 1 / 10000" by linarith+
  have pb: "1 / 10 \<le> p" "p \<le> 256" using e1(2) q unfolding p_def by linarith+
  have "2 powi (- 1022) \<le> \<bar>p\<bar>" using small pb by linarith
  moreover have "\<bar>p\<bar> \<le> 256" using pb by linarith
  ultimately have e2: "\<bar>r2 - p\<bar> \<le> 256 / 2 ^ 53" unfolding r2_def by (rule rnd_close)
  have "p - 255 * q = 255 * (r1 - q)" unfolding p_def by (simp add: algebra_simps)
  then have "\<bar>p - 255 * q\<bar> = 255 * \<bar>r1 - q\<bar>" by (simp only: abs_mult abs_numeral)
  then have "\<bar>p - 255 * q\<bar> \<le> 255 / 2 ^ 53" using e1(1) by simp
  with e2 have "\<bar>r2 - 255 * q\<bar> \<le> 511 / 2 ^ 53" by linarith
  moreover have "(511::real) / 2 ^ 53 \<le> 1 / 1000" by simp
  ultimately have e3: "\<bar>r2 - 255 * q\<bar> \<le> 1 / 1000" by linarith
  have n17: "n = (17 * x) div 128"
    using div_mult_mult1[of 15 "17 * x" 128] by (simp add: n_def)
  define m where "m = (17 * x) mod 128"
  have dec: "17 * x = 128 * n + m" unfolding n17 m_def by simp
  have "m \<noteq> 0"
  proof
    assume "m = 0"
    then have "128 dvd 17 * x"
      using mod_eq_0_iff_dvd[of "17 * x" 128] unfolding m_def by blast
    then have "128 dvd 15 * (17 * x)" by (rule dvd_mult)
    moreover have "(128::int) dvd 128 * (2 * x)" by (rule dvd_triv_left)
    ultimately have "128 dvd 128 * (2 * x) - 15 * (17 * x)" by (intro dvd_diff)
    moreover have "128 * (2 * x) - 15 * (17 * x) = x" by simp
    ultimately show False using assms(3) by simp
  qed
  moreover have "0 \<le> m" "m < 128" unfolding m_def by simp_all
  ultimately have mb: "1 \<le> m" "m \<le> 127" by linarith+
  have "17 * real_of_int x = 128 * real_of_int n + real_of_int m"
    using arg_cong[OF dec, of real_of_int] by simp
  moreover have "1 \<le> real_of_int m" "real_of_int m \<le> 127" using mb by simp_all
  ultimately have "128 * real_of_int n + 1 \<le> 17 * real_of_int x \<and> 17 * real_of_int x \<le> 128 * real_of_int n + 127"
    by linarith
  moreover have "255 * q = 17 * real_of_int x / 128" by (simp add: q_def)
  ultimately have v: "real_of_int n + 1 / 128 \<le> 255 * q" "255 * q \<le> real_of_int n + 127 / 128"
    by (simp_all add: field_simps)
  have "real_of_int n \<le> r2" "r2 < real_of_int n + 1" using v e3 by linarith+
  then have fl: "\<lfloor>r2\<rfloor> = n" by (simp add: floor_unique)
  have "0 \<le> r2" using pb unfolding r2_def by (intro rnd_nonneg) linarith
  then have "py_int r2 = n" using fl by (simp add: py_int_def)
  then show ?thesis
    by (simp add: gradient_color_val_def fmul_def fdiv_def r2_def p_def r1_def q_def n_def)
qed

lemma gradient_exact:
  assumes "0 \<le> x" "x < 1920"
  shows "gradient_color_val x = (255 * x) div 1920"
proof (cases "128 dvd x")
  case True
  then obtain j where j: "x = 128 * j" by (auto elim: dvdE)
  with assms have "0 \<le> j" "j \<le> 14" by auto
  then have "j \<in> set [0..14]" by simp
  then have "gradient_color_val (128 * j) = 17 * j"
    using gradient_multiples unfolding list_all_iff by blast
  then show ?thesis by (simp add: j)
next
  case False
  with assms show ?thesis by (rule gradient_generic)
qed

lemma gradient_ops: "ops img_1080p_gradient = map gradient_line (py_range 0 1920 1)"
  by (simp add: img_1080p_gradient_def foldl_draw_ops new_image_def)

lemma gradient_size: "size_wh img_1080p_gradient = (1920, 1080)"
  by (simp add: img_1080p_gradient_def foldl_draw_size new_image_def)

lemma gradient_line_covers:
  "covers (gradient_line i) (x, y) = Some (x = i \<and> 0 \<le> y \<and> y \<le> 1080)"
  by (simp add: gradient_line_def Let_def)

lemma gradient_line_fill:
  "fill_of (gradient_line i) = RGB (gradient_color_val i) 100 (255 - gradient_color_val i)"
  by (simp add: gradient_line_def Let_def)

lemma gradient_pixel:
  assumes "0 \<le> x" "x < 1920" "0 \<le> y" "y < 1080"
  shows "pixel img_1080p_gradient (x, y)
           = Some (RGB (gradient_color_val x) 100 (255 - gradient_color_val x))"
proof -
  have "foldl (paint (x, y)) (Some (stored (background img_1080p_gradient)))
          (ops img_1080p_gradient)
          = Some (stored (fill_of (gradient_line x)))"
  proof (rule foldl_paint_unique)
    show "\<forall>t\<in>set (ops img_1080p_gradient). covers t (x, y) \<noteq> None"
      unfolding gradient_ops by (clarsimp simp: gradient_line_covers)
    show "gradient_line x \<in> set (ops img_1080p_gradient)"
      unfolding gradient_ops using assms by (simp add: py_range_set)
    show "covers (gradient_line x) (x, y) = Some True"
      using assms by (simp add: gradient_line_covers)
    show "\<forall>t\<in>set (ops img_1080p_gradient).
            covers t (x, y) = Some True \<longrightarrow> fill_of t = fill_of (gradient_line x)"
      unfolding gradient_ops by (clarsimp simp: gradient_line_covers)
  qed
  moreover have "stored (fill_of (gradient_line x)) = fill_of (gradient_line x)"
    using gradient_range[of x] assms by (simp add: gradient_line_fill clip8_def)
  ultimately show ?thesis using assms by (simp add: pixel_def gradient_size gradient_line_fill)
qed

lemma bands_ops:
  "ops img_photo_bands = map sky_line (py_range 0 500 1) @ map ground_line (py_range 500 1536 1)"
  by (simp add: img_photo_bands_def foldl_draw_ops new_image_def)

lemma bands_size: "size_wh img_photo_bands = (2048, 1536)"
  by (simp add: img_photo_bands_def foldl_draw_size new_image_def)

lemma sky_line_covers:
  "covers (sky_line i) (x, y) = Some (y = i \<and> 0 \<le> x \<and> x \<le> 2048)"
  by (simp add: sky_line_def Let_def)

lemma ground_line_covers:
  "covers (ground_line i) (x, y) = Some (y = i \<and> 0 \<le> x \<and> x \<le> 2048)"
  by (simp add: ground_line_def Let_def)

lemma sky_line_fill:
  "fill_of (sky_line y) = RGB (sky_color_val y) (sky_color_val y + 20) 255"
  by (simp add: sky_line_def Let_def)

lemma ground_line_fill:
  "fill_of (ground_line y) = RGB (ground_color_val y) (ground_color_val y + 50) (ground_color_val y)"
  by (simp add: ground_line_def Let_def)


lemma ground_pixel:
  assumes "0 \<le> x" "x < 2048" "500 \<le> y" "y < 1536"
  shows "pixel img_photo_bands (x, y)
           = Some (RGB (ground_color_val y) (ground_color_val y + 50) (ground_color_val y))"
proof -
  have "foldl (paint (x, y)) (Some (stored (background img_photo_bands))) (ops img_photo_bands)
          = Some (stored (fill_of (ground_line y)))"
  proof (rule foldl_paint_unique)
    show "\<forall>t\<in>set (ops img_photo_bands). covers t (x, y) \<noteq> None"
      unfolding bands_ops by (auto simp: sky_line_covers ground_line_covers)
    show "ground_line y \<in> set (ops img_photo_bands)"
      unfolding bands_ops using assms by (simp add: py_range_set)
    show "covers (ground_line y) (x, y) = Some True"
      using assms by (simp add: ground_line_covers)
    show "\<forall>t\<in>set (ops img_photo_bands).
            covers t (x, y) = Some True \<longrightarrow> fill_of t = fill_of (ground_line y)"
      unfolding bands_ops using assms by (auto simp: sky_line_covers ground_line_covers py_range_set)
  qed
  moreover have "stored (fill_of (ground_line y)) = fill_of (ground_line y)"
    using ground_range[of y] assms by (simp add: ground_line_fill clip8_def)
  ultimately show ?thesis using assms by (simp add: pixel_def bands_size ground_line_fill)
qed

lemma gradient_ops_lines:
  "ops img_1080p_gradient
     = map (\<lambda>i. Line (i, 0) (i, 1080) (RGB (gradient_color_val i) 100 (255 - gradient_color_val i)))
         (py_range 0 1920 1)"
  by (simp add: gradient_ops gradient_line_def Let_def)

text \<open>
  Claim C5. The 1080p gradient is drawn as one vertical line per column \<open>i\<close> of
  \<open>0, \<dots>, 1919\<close>, from row 0 to row 1080; afterwards every pixel \<open>(x, y)\<close> of the
  canvas has the colour of its column, red \<open>\<lfloor>255 x / 1920\<rfloor>\<close> (the binary64 computation
  \<^verbatim>\<open>int(255 * (x / 1920))\<close> returns exactly this integer), green 100 and blue 255 minus
  red. Red never decreases and blue never increases from left to right; column 0 has the
  start colour \<open>(0, 100, 255)\<close> and column 1919 has \<open>(254, 100, 1)\<close>, next to the end
  colour.
\<close>

theorem gradient_columns:
  "ops img_1080p_gradient
     = map (\<lambda>i. Line (i, 0) (i, 1080) (RGB (gradient_color_val i) 100 (255 - gradient_color_val i)))
         (py_range 0 1920 1)
   \<and> (0 \<le> x \<and> x < 1920 \<and> 0 \<le> y \<and> y < 1080 \<longrightarrow>
        pixel img_1080p_gradient (x, y)
          = Some (RGB ((255 * x) div 1920) 100 (255 - (255 * x) div 1920))
        \<and> gradient_color_val x = (255 * x) div 1920)
   \<and> (i \<le> j \<longrightarrow> gradient_color_val i \<le> gradient_color_val j
          \<and> 255 - gradient_color_val j \<le> 255 - gradient_color_val i)
   \<and> pixel img_1080p_gradient (0, 0) = Some (RGB 0 100 255)
   \<and> pixel img_1080p_gradient (1919, 0) = Some (RGB 254 100 1)"
proof -
  have "pixel img_1080p_gradient (x, y)
          = Some (RGB ((255 * x) div 1920) 100 (255 - (255 * x) div 1920))
        \<and> gradient_color_val x = (255 * x) div 1920"
    if "0 \<le> x \<and> x < 1920 \<and> 0 \<le> y \<and> y < 1080"
    using gradient_pixel[of x y] gradient_exact[of x] that by simp
  moreover have "gradient_color_val i \<le> gradient_color_val j
          \<and> 255 - gradient_color_val j \<le> 255 - gradient_color_val i" if "i \<le> j"
    using gradient_color_val_mono[OF that] by simp
  moreover have "pixel img_1080p_gradient (0, 0) = Some (RGB 0 100 255)"
    using gradient_pixel[of 0 0] by (simp add: gradient_points)
  moreover have "pixel img_1080p_gradient (1919, 0) = Some (RGB 254 100 1)"
    using gradient_pixel[of 1919 0] by (simp add: gradient_points)
  ultimately show ?thesis using gradient_ops_lines by blast
qed

theorem gradient_columns_witness:
  "pixel img_1080p_gradient (960, 540) = Some (RGB 127 100 128)
   \<and> gradient_color_val 3 \<le> gradient_color_val 900"
  using gradient_columns[of 960 540 3 900] by simp

lemma uint8_id: "0 \<le> v \<Longrightarrow> v \<le> 255 \<Longrightarrow> uint8 v = v"
  by (simp add: uint8_def)

text \<open>
  The values the script computes lie in \<open>[0, 255]\<close> for the 1080p gradient, for every
  tile of the 720p pattern, for the ground band of the photo, and for the sky band in rows
  0 to 420; in every row of the sky band red lies in \<open>[135, 254]\<close> and blue is 255.
  Every channel of every video pixel lies in \<open>[1, 255]\<close>, so that storing it into the
  \<^verbatim>\<open>uint8\<close> array changes nothing.
\<close>

lemma computed_channels:
  "(0 \<le> i \<and> i < 1920 \<longrightarrow> fill_in_range (fill_of (gradient_line i)))
   \<and> fill_in_range (fill_of (tile x y))
   \<and> (500 \<le> yg \<and> yg < 1536 \<longrightarrow> fill_in_range (fill_of (ground_line yg)))
   \<and> (0 \<le> ys \<and> ys \<le> 420 \<longrightarrow> fill_in_range (fill_of (sky_line ys)))
   \<and> (0 \<le> ys \<and> ys < 500 \<longrightarrow>
         (\<exists>g. fill_of (sky_line ys) = RGB (sky_color_val ys) g 255)
         \<and> 135 \<le> sky_color_val ys \<and> sky_color_val ys \<le> 254)
   \<and> 1 \<le> channel k p d \<and> channel k p d \<le> 255 \<and> uint8 (channel k p d) = channel k p d"
proof -
  have "fill_in_range (fill_of (gradient_line i))" if "0 \<le> i \<and> i < 1920"
    using gradient_range[of i] that by (simp add: gradient_line_fill fill_in_range_def)
  moreover have "fill_in_range (fill_of (tile x y))"
    by (simp add: tile_fill fill_in_range_def) (simp add: order_less_imp_le[OF pos_mod_bound] zle_diff1_eq[symmetric])
  moreover have "fill_in_range (fill_of (ground_line yg))" if "500 \<le> yg \<and> yg < 1536"
    using ground_range[of yg] that by (simp add: ground_line_fill fill_in_range_def)
  moreover have "fill_in_range (fill_of (sky_line ys))" if "0 \<le> ys \<and> ys \<le> 420"
    using sky_range[of ys] sky_range_420[of ys] that by (simp add: sky_line_fill fill_in_range_def)
  moreover have "(\<exists>g. fill_of (sky_line ys) = RGB (sky_color_val ys) g 255)
         \<and> 135 \<le> sky_color_val ys \<and> sky_color_val ys \<le> 254" if "0 \<le> ys \<and> ys < 500"
    using sky_range[of ys] that by (simp add: sky_line_fill)
  moreover have "1 \<le> channel k p d \<and> channel k p d \<le> 255 \<and> uint8 (channel k p d) = channel k p d"
    using channel_range[of k p d] by (simp add: uint8_id)
  ultimately show ?thesis by blast
qed


section \<open>The sinusoidal field of the video\<close>

lemma sin_term_Suc:
  "sin_term x (Suc j) = sin_term x j * (x\<^sup>2 / (real (2 * j + 2) * real (2 * j + 3)))"
proof -
  have f: "fact (2 * Suc j + 1) = (fact (2 * j + 1) :: real) * (real (2 * j + 2) * real (2 * j + 3))"
    by (simp add: algebra_simps)
  have p: "x ^ (2 * Suc j + 1) = x ^ (2 * j + 1) * x\<^sup>2"
    by (simp add: power2_eq_square)
  show ?thesis by (simp only: sin_term_def f p times_divide_times_eq)
qed

lemma sin_partial:
  "(\<Sum>m<2 * n. sin_coeff m * x ^ m) = (\<Sum>j<n. (- 1) ^ j * sin_term x j)"
  by (induction n) (simp_all add: sin_coeff_def sin_term_def)

lemma sin_enclosure:
  assumes "0 \<le> x"
  shows "\<bar>sin x - (\<Sum>j<Suc n. (- 1) ^ j * sin_term x j)\<bar> \<le> sin_term x n * (x / real (2 * n + 2))"
proof -
  have "\<bar>sin x - (\<Sum>m<2 * Suc n. sin_coeff m * x ^ m)\<bar> \<le> inverse (fact (2 * Suc n)) * \<bar>x\<bar> ^ (2 * Suc n)"
    by (rule Maclaurin_sin_bound)
  moreover have "inverse (fact (2 * Suc n)) * \<bar>x\<bar> ^ (2 * Suc n) = sin_term x n * (x / real (2 * n + 2))"
    using assms by (simp add: sin_term_def field_simps)
  ultimately show ?thesis by (simp only: sin_partial)
qed

lemma sin_chain_sound:
  assumes "sin_chain x j t s bs = Some (t', s')"
    and "fst t \<le> sin_term x j" "sin_term x j \<le> snd t"
    and "fst s \<le> (\<Sum>i<Suc j. (- 1) ^ i * sin_term x i)"
        "(\<Sum>i<Suc j. (- 1) ^ i * sin_term x i) \<le> snd s"
  shows "fst t' \<le> sin_term x (j + length bs) \<and> sin_term x (j + length bs) \<le> snd t'
       \<and> fst s' \<le> (\<Sum>i<Suc (j + length bs). (- 1) ^ i * sin_term x i)
       \<and> (\<Sum>i<Suc (j + length bs). (- 1) ^ i * sin_term x i) \<le> snd s'"
  using assms
proof (induction bs arbitrary: j t s)
  case Nil
  then show ?case by simp
next
  case (Cons b bs)
  define c where "c = x\<^sup>2 / (real (2 * j + 2) * real (2 * j + 3))"
  have c: "0 \<le> c" by (simp add: c_def)
  define s2 where "s2 = (if even (Suc j) then (fst s + fst b, snd s + snd b)
                 else (fst s - snd b, snd s - fst b))"
  from Cons.prems(1) have ok: "fst b \<le> fst t * c" "snd t * c \<le> snd b"
    and rest: "sin_chain x (Suc j) b s2 bs = Some (t', s')"
    by (simp_all add: Let_def c_def s2_def split: if_splits)
  have tj: "sin_term x (Suc j) = sin_term x j * c" by (simp add: sin_term_Suc c_def)
  have "fst t * c \<le> sin_term x j * c" using Cons.prems(2) c by (rule mult_right_mono)
  then have b1: "fst b \<le> sin_term x (Suc j)" using ok(1) tj by linarith
  have "sin_term x j * c \<le> snd t * c" using Cons.prems(3) c by (rule mult_right_mono)
  then have b2: "sin_term x (Suc j) \<le> snd b" using ok(2) tj by linarith
  have sum: "(\<Sum>i<Suc (Suc j). (- 1) ^ i * sin_term x i)
      = (\<Sum>i<Suc j. (- 1) ^ i * sin_term x i) + (- 1) ^ Suc j * sin_term x (Suc j)"
    by simp
  have s21: "fst s2 \<le> (\<Sum>i<Suc (Suc j). (- 1) ^ i * sin_term x i)"
    unfolding sum using Cons.prems(4) b1 b2 by (cases "even (Suc j)") (simp_all add: s2_def)
  have s22: "(\<Sum>i<Suc (Suc j). (- 1) ^ i * sin_term x i) \<le> snd s2"
    unfolding sum using Cons.prems(5) b1 b2 by (cases "even (Suc j)") (simp_all add: s2_def)
  from Cons.IH[OF rest b1 b2 s21 s22] show ?case by simp
qed

text \<open>Enclosures of the sine at three points, from its Maclaurin series.\<close>

lemma sin_enclosure_chain:
  assumes "0 \<le> x" "sin_chain x 0 (x, x) (x, x) bs = Some ((l, u), (slo, shi))"
  shows "slo - u * (x / real (2 * length bs + 2)) \<le> sin x"
    and "sin x \<le> shi + u * (x / real (2 * length bs + 2))"
proof -
  have t0: "sin_term x 0 = x" by (simp add: sin_term_def)
  have b: "fst (l, u) \<le> sin_term x (0 + length bs) \<and> sin_term x (0 + length bs) \<le> snd (l, u)
       \<and> fst (slo, shi) \<le> (\<Sum>i<Suc (0 + length bs). (- 1) ^ i * sin_term x i)
       \<and> (\<Sum>i<Suc (0 + length bs). (- 1) ^ i * sin_term x i) \<le> snd (slo, shi)"
    by (rule sin_chain_sound[OF assms(2)]) (simp_all add: t0)
  have "0 \<le> x / real (2 * length bs + 2)" using assms(1) by simp
  then have "sin_term x (length bs) * (x / real (2 * length bs + 2))
      \<le> u * (x / real (2 * length bs + 2))"
    using b by (intro mult_right_mono) simp_all
  with sin_enclosure[OF assms(1), of "length bs"] b
  show "slo - u * (x / real (2 * length bs + 2)) \<le> sin x"
    and "sin x \<le> shi + u * (x / real (2 * length bs + 2))"
    by (simp_all add: abs_le_iff)
qed


lemma chain_below_pi:
  "sin_chain (392699 / 125000) 0 (392699 / 125000, 392699 / 125000) (392699 / 125000, 392699 / 125000)
     [(95327415603078075493 / 18446744073709551616, 47663707801539037747 / 9223372036854775808),
      (47042174455331574101 / 18446744073709551616, 47042174455331574103 / 18446744073709551616),
      (11054463306108746727 / 18446744073709551616, 11054463306108746729 / 18446744073709551616),
      (189415163717208975 / 2305843009213693952, 757660654868835901 / 9223372036854775808),
      (135960142225404543 / 18446744073709551616, 1062188611135973 / 144115188075855872),
      (4300872627382115 / 9223372036854775808, 8601745254764231 / 18446744073709551616),
      (101066413689673 / 4611686018427387904, 404265654758693 / 18446744073709551616),
      (14668898622235 / 18446744073709551616, 3667224655559 / 4611686018427387904),
      (423322123279 / 18446744073709551616, 26457632705 / 1152921504606846976),
      (9947667029 / 18446744073709551616, 4973833515 / 9223372036854775808)]
   = Some ((9947667029 / 18446744073709551616, 4973833515 / 9223372036854775808), (188387414505240823 / 288230376151711744000000, 47096853626360987 / 72057594037927936000000))"
  by (simp add: Let_def power_divide)

lemma chain_above_pi:
  "sin_chain (3141593 / 1000000) 0 (3141593 / 1000000, 3141593 / 1000000) (3141593 / 1000000, 3141593 / 1000000)
     [(95327506634102422461 / 18446744073709551616, 47663753317051211231 / 9223372036854775808),
      (23521124662670398825 / 9223372036854775808, 11760562331335199413 / 4611686018427387904),
      (11054487937352089739 / 18446744073709551616, 11054487937352089741 / 18446744073709551616),
      (757662825409942441 / 9223372036854775808, 1515325650819884883 / 18446744073709551616),
      (67980309139146307 / 9223372036854775808, 135960618278292615 / 18446744073709551616),
      (8601780849106805 / 18446744073709551616, 4300890424553403 / 9223372036854775808),
      (25266724061857 / 1152921504606846976, 202133792494857 / 9223372036854775808),
      (3667244499949 / 4611686018427387904, 14668977999797 / 18446744073709551616),
      (423324683491 / 18446744073709551616, 105831170873 / 4611686018427387904),
      (9947733525 / 18446744073709551616, 4973866763 / 9223372036854775808)]
   = Some ((9947733525 / 18446744073709551616, 4973866763 / 9223372036854775808), ((- (49921480812312779 / 144115188075855872000000)), (- (99842961624422433 / 288230376151711744000000))))"
  by (simp add: Let_def power_divide)


lemma pi_bounds: "392699 / 125000 < pi" "pi < 3141593 / 1000000"
proof -
  have pos: "0 < sin (392699 / 125000 :: real)"
    using sin_enclosure_chain(1)[OF _ chain_below_pi] by simp
  have neg: "sin (3141593 / 1000000 :: real) < 0"
    using sin_enclosure_chain(2)[OF _ chain_above_pi] by simp
  show "392699 / 125000 < pi"
  proof (rule ccontr)
    assume "\<not> 392699 / 125000 < pi"
    then have "pi \<le> 392699 / 125000" by simp
    moreover have "(392699 / 125000 :: real) < 2 * pi" using pi_ge_two by simp
    ultimately have "sin (392699 / 125000 :: real) \<le> 0" by (rule sin_le_zero)
    with pos show False by simp
  qed
  show "pi < 3141593 / 1000000"
  proof (rule ccontr)
    assume "\<not> pi < 3141593 / 1000000"
    then have "3141593 / 1000000 \<le> pi" by simp
    then have "0 \<le> sin (3141593 / 1000000 :: real)" by (intro sin_ge_zero) simp_all
    with neg show False by simp
  qed
qed




lemma rnd_dyadic:
  assumes "\<bar>m\<bar> < 2 ^ 53" "e \<le> 1074"
  shows "rnd (real_of_int m / 2 ^ e) = real_of_int m / 2 ^ e"
proof -
  have "(2::real) powi (- int e) = 1 / 2 ^ e" by (simp add: power_int_minus field_simps)
  then show ?thesis using rnd_fix[of m "- int e"] assms by simp
qed




section \<open>One period later\<close>

lemma rnd_err_ulp:
  assumes "x \<noteq> 0"
  shows "\<bar>rnd x - x\<bar> \<le> 2 powi (ulp_exp x) / 2"
proof -
  define E where "E = ulp_exp x"
  define r where "r = real_of_int (round_half_even (x / 2 powi E))"
  have "\<bar>r - x / 2 powi E\<bar> \<le> 1 / 2"
    unfolding r_def using rhe_upper[of "x / 2 powi E"] rhe_lower[of "x / 2 powi E"] by linarith
  then have le: "\<bar>r - x / 2 powi E\<bar> * 2 powi E \<le> 1 / 2 * 2 powi E"
    by (rule mult_right_mono) simp
  have eq: "\<bar>r * 2 powi E - x\<bar> = \<bar>r - x / 2 powi E\<bar> * 2 powi E"
  proof -
    have "\<bar>r - x / 2 powi E\<bar> * 2 powi E = \<bar>(r - x / 2 powi E) * 2 powi E\<bar>"
      by (simp add: abs_mult)
    also have "(r - x / 2 powi E) * 2 powi E = r * 2 powi E - x"
      by (simp add: left_diff_distrib)
    finally show ?thesis by (rule sym)
  qed
  have "\<bar>rnd x - x\<bar> = \<bar>r * 2 powi E - x\<bar>" using assms by (simp add: rnd_def r_def E_def)
  also note eq
  also note le
  finally show ?thesis by (simp add: E_def)
qed

lemma rnd_close_all:
  assumes "\<bar>x\<bar> \<le> B" "2 powi (- 1022) \<le> B"
  shows "\<bar>rnd x - x\<bar> \<le> B / 2 ^ 53"
proof (cases "2 powi (- 1022) \<le> \<bar>x\<bar>")
  case True
  then show ?thesis using assms(1) by (rule rnd_close)
next
  case False
  have B: "0 \<le> B / 2 ^ 53" using assms by simp
  show ?thesis
  proof (cases "x = 0")
    case True
    then show ?thesis using B by (simp add: rnd_zero)
  next
    case nz: False
    then have pos: "0 < \<bar>x\<bar>" by simp
    have "(2::real) powi (ilog2 \<bar>x\<bar>) < 2 powi (- 1022)"
      using ilog2_lower[OF pos] False by linarith
    then have "ilog2 \<bar>x\<bar> < - 1022" by (simp only: pow2_less_iff)
    then have e: "ulp_exp x = - 1074" by (simp add: ulp_exp_def)
    have "\<bar>rnd x - x\<bar> \<le> 2 powi (- 1074) / 2" using rnd_err_ulp[OF nz] by (simp add: e)
    also have "(2::real) powi (- 1074) / 2 = 2 powi (- 1022) / 2 ^ 53"
    proof -
      have "(2::real) powi (- 1022) = 2 powi (- 1074) * 2 powi 52"
        by (simp add: power_int_add[symmetric])
      then show ?thesis by simp
    qed
    also have "\<dots> \<le> B / 2 ^ 53" using assms(2) by (simp add: divide_right_mono)
    finally show ?thesis .
  qed
qed

lemma sin_lipschitz: "\<bar>sin x - sin y\<bar> \<le> \<bar>x - y\<bar>" for x y :: real
proof -
  have "sin x - sin y = 2 * sin ((x - y) / 2) * cos ((x + y) / 2)" by (rule sin_diff_sin)
  then have "\<bar>sin x - sin y\<bar> = 2 * \<bar>sin ((x - y) / 2)\<bar> * \<bar>cos ((x + y) / 2)\<bar>"
    by (simp add: abs_mult)
  also have "\<dots> \<le> 2 * \<bar>sin ((x - y) / 2)\<bar> * 1"
    by (intro mult_left_mono) simp_all
  also have "\<dots> \<le> 2 * \<bar>(x - y) / 2\<bar> * 1"
    using abs_sin_x_le_abs_x[of "(x - y) / 2"] by simp
  finally show ?thesis by simp
qed

lemma np_pi_near_pi: "\<bar>np_pi - pi\<bar> \<le> 1 / 1000000"
proof -
  have "392699 / 125000 < np_pi" "np_pi < 3141593 / 1000000" by (simp_all add: np_pi_def)
  then show ?thesis using pi_bounds by linarith
qed

lemma rnd_close_big:
  assumes "\<bar>x\<bar> \<le> B" "1 \<le> B"
  shows "\<bar>rnd x - x\<bar> \<le> B / 2 ^ 53"
proof -
  have "2 powi (- 1022) \<le> B" using pow2_m1022_small assms(2) by linarith
  with assms(1) show ?thesis by (rule rnd_close_all)
qed

lemma rnd_close_4096:
  assumes "\<bar>x\<bar> \<le> 4096"
  shows "\<bar>rnd x - x\<bar> \<le> 1 / 1000000000000"
proof -
  have "\<bar>rnd x - x\<bar> \<le> 4096 / 2 ^ 53" using assms by (rule rnd_close_big) simp
  moreover have "(4096::real) / 2 ^ 53 \<le> 1 / 1000000000000" by simp
  ultimately show ?thesis by linarith
qed

lemma two_np_pi: "fmul 2 np_pi = 884279719003555 / 140737488355328"
  using rnd_dyadic[of 884279719003555 47] by (simp add: fmul_def np_pi_def)

lemma phase_arg_close:
  assumes "0 \<le> k" "k \<le> 300" "0 \<le> p" "p \<le> 2000" "d = 100 \<or> d = 200"
  shows "\<bar>phase_arg k p d - (2 * np_pi * real_of_int k / 60 + real_of_int p / real_of_int d)\<bar>
           \<le> 1 / 100000000000"
proof -
  define K where "K = real_of_int k"
  define q where "q = real_of_int p / real_of_int d"
  define u2 where "u2 = rnd (884279719003555 / 140737488355328 * K)"
  define u3 where "u3 = rnd (u2 / 60)"
  define v where "v = rnd q"
  have K: "0 \<le> K" "K \<le> 300" using assms by (simp_all add: K_def)
  have q: "0 \<le> q" "q \<le> 20" using assms by (auto simp: q_def)
  have "\<bar>884279719003555 / 140737488355328 * K\<bar> \<le> 4096" using K by linarith
  then have e2: "\<bar>u2 - 884279719003555 / 140737488355328 * K\<bar> \<le> 1 / 1000000000000"
    unfolding u2_def by (rule rnd_close_4096)
  have "\<bar>u2 / 60\<bar> \<le> 4096" using e2 K by linarith
  then have e3: "\<bar>u3 - u2 / 60\<bar> \<le> 1 / 1000000000000"
    unfolding u3_def by (rule rnd_close_4096)
  have "\<bar>q\<bar> \<le> 4096" using q by linarith
  then have ev: "\<bar>v - q\<bar> \<le> 1 / 1000000000000"
    unfolding v_def by (rule rnd_close_4096)
  have "\<bar>u3 + v\<bar> \<le> 4096" using e2 e3 ev K q by linarith
  then have ea: "\<bar>rnd (u3 + v) - (u3 + v)\<bar> \<le> 1 / 1000000000000"
    by (rule rnd_close_4096)
  have "phase_arg k p d = rnd (u3 + v)"
    unfolding phase_arg_def two_np_pi
    by (simp add: fadd_def fdiv_def fmul_def u3_def u2_def v_def K_def q_def)
  moreover have "2 * np_pi * real_of_int k / 60 + real_of_int p / real_of_int d
      = 884279719003555 / 140737488355328 * K / 60 + q"
    by (simp add: np_pi_def K_def q_def)
  ultimately show ?thesis using e2 e3 ev ea by linarith
qed

text \<open>The binary64 value \<^verbatim>\<open>128 + 127 * np.sin(t)\<close> is within a millionth of the exact one.\<close>

lemma channel_value:
  "\<bar>fadd 128 (fmul 127 (np_sin t)) - (128 + 127 * sin t)\<bar> \<le> 1 / 1000000"
  "0 \<le> fadd 128 (fmul 127 (np_sin t))"
proof -
  define s where "s = rnd (sin t)"
  define m where "m = rnd (127 * s)"
  define f where "f = rnd (128 + m)"
  have sb: "- 1 \<le> sin t" "sin t \<le> 1" by simp_all
  then have "\<bar>sin t\<bar> \<le> 4096" by linarith
  then have es: "\<bar>s - sin t\<bar> \<le> 1 / 1000000000000" unfolding s_def by (rule rnd_close_4096)
  have "\<bar>127 * s\<bar> \<le> 4096" using es sb by linarith
  then have em: "\<bar>m - 127 * s\<bar> \<le> 1 / 1000000000000" unfolding m_def by (rule rnd_close_4096)
  have "\<bar>128 + m\<bar> \<le> 4096" using em es sb by linarith
  then have ef: "\<bar>f - (128 + m)\<bar> \<le> 1 / 1000000000000" unfolding f_def by (rule rnd_close_4096)
  have "0 \<le> 128 + m" using em es sb by linarith
  then have "0 \<le> f" unfolding f_def by (rule rnd_nonneg)
  moreover have "\<bar>f - (128 + 127 * sin t)\<bar> \<le> 1 / 1000000" using ef em es by linarith
  ultimately show "\<bar>fadd 128 (fmul 127 (np_sin t)) - (128 + 127 * sin t)\<bar> \<le> 1 / 1000000"
    and "0 \<le> fadd 128 (fmul 127 (np_sin t))"
    by (simp_all add: f_def m_def s_def fadd_def fmul_def np_sin_def)
qed





section \<open>The three sinusoids\<close>

text \<open>
  Every channel is the truncation of a value within \<open>1/500\<close> of the ideal sinusoid
  \<open>128 + 127 sin(2 \<pi> k / 60 + p / d)\<close>.
\<close>

lemma channel_near_sinusoid:
  assumes "0 \<le> k" "k \<le> 300" "0 \<le> p" "p \<le> 2000" "d = 100 \<or> d = 200"
  shows "128 + 127 * sin (2 * pi * real_of_int k / 60 + real_of_int p / real_of_int d) - 1 - 1 / 500
           < real_of_int (channel k p d)"
    and "real_of_int (channel k p d)
           \<le> 128 + 127 * sin (2 * pi * real_of_int k / 60 + real_of_int p / real_of_int d) + 1 / 500"
proof -
  define K where "K = real_of_int k"
  define q where "q = real_of_int p / real_of_int d"
  define th where "th = 2 * np_pi * K / 60 + q"
  define ideal where "ideal = 2 * pi * K / 60 + q"
  define f where "f = fadd 128 (fmul 127 (np_sin (phase_arg k p d)))"
  have K: "0 \<le> K" "K \<le> 300" using assms by (simp_all add: K_def)
  have a: "\<bar>phase_arg k p d - th\<bar> \<le> 1 / 100000000000"
    unfolding th_def K_def q_def using assms by (intro phase_arg_close) simp_all
  have "th - ideal = (np_pi - pi) * (K / 30)" by (simp add: th_def ideal_def field_simps)
  then have "\<bar>th - ideal\<bar> = \<bar>(np_pi - pi) * (K / 30)\<bar>" by (simp only:)
  also have "\<dots> = \<bar>np_pi - pi\<bar> * \<bar>K / 30\<bar>" by (rule abs_mult)
  also have "\<dots> = \<bar>np_pi - pi\<bar> * (K / 30)" using K by simp
  also have "\<dots> \<le> 1 / 1000000 * (K / 30)"
    using np_pi_near_pi K by (intro mult_right_mono) simp_all
  also have "\<dots> \<le> 1 / 100000" using K by simp
  finally have b: "\<bar>th - ideal\<bar> \<le> 1 / 100000" .
  have "\<bar>sin (phase_arg k p d) - sin ideal\<bar> \<le> \<bar>phase_arg k p d - ideal\<bar>"
    by (rule sin_lipschitz)
  then have s: "\<bar>sin (phase_arg k p d) - sin ideal\<bar> \<le> 11 / 1000000" using a b by linarith
  have v: "\<bar>f - (128 + 127 * sin (phase_arg k p d))\<bar> \<le> 1 / 1000000" "0 \<le> f"
    unfolding f_def by (rule channel_value)+
  have c: "channel k p d = \<lfloor>f\<rfloor>" using v(2) by (simp add: channel_def py_int_def f_def)
  have fl: "f - 1 < real_of_int \<lfloor>f\<rfloor>" "real_of_int \<lfloor>f\<rfloor> \<le> f" by linarith+
  have "128 + 127 * sin ideal - 1 - 1 / 500 < real_of_int (channel k p d)"
    using s v(1) fl(1) unfolding c by linarith
  moreover have "real_of_int (channel k p d) \<le> 128 + 127 * sin ideal + 1 / 500"
    using s v(1) fl(2) unfolding c by linarith
  ultimately show
    "128 + 127 * sin (2 * pi * real_of_int k / 60 + real_of_int p / real_of_int d) - 1 - 1 / 500
           < real_of_int (channel k p d)"
    and "real_of_int (channel k p d)
           \<le> 128 + 127 * sin (2 * pi * real_of_int k / 60 + real_of_int p / real_of_int d) + 1 / 500"
    by (simp_all add: ideal_def K_def q_def)
qed

lemma field_canvas_data:
  assumes "0 \<le> x" "x < 1280" "0 \<le> y" "y < 720"
  shows "\<exists>f. field_canvas 1280 720 k = Inr f
           \<and> data f (y, x) = (video_b k x y, video_g k y, video_r k x)"
proof -
  have "uint8 (channel k' p d) = channel k' p d" for k' p d
    using channel_range[of k' p d] by (intro uint8_id) linarith+
  then show ?thesis
    using field_canvas_ok[of 1280 720 k] assms
    by (auto simp: video_r_def video_g_def video_b_def)
qed

lemma make_frame_data:
  assumes "make_frame glyph 1280 720 30 300 k = Inr f" "0 \<le> x" "x < 1280" "0 \<le> y" "y < 720"
  shows "data f (y, x)
           = (if glyph (counter_label k 300) (50, 50) (x, y)
                 \<or> glyph (time_label k 30) (50, 100) (x, y)
                 \<or> glyph ''Sample Video for CompressCLI'' (50, 670) (x, y)
              then (255, 255, 255) else (video_b k x y, video_g k y, video_r k x))"
proof -
  have "data f (y, x)
           = (if glyph (counter_label k 300) (50, 50) (x, y)
                 \<or> glyph (time_label k 30) (50, 100) (x, y)
                 \<or> glyph ''Sample Video for CompressCLI'' (50, 670) (x, y)
              then (255, 255, 255)
              else (uint8 (video_b k x y), uint8 (video_g k y), uint8 (video_r k x)))"
    using make_frame_ok[of 1280 720 glyph 30 300 k] assms by auto
  moreover have "uint8 (channel k' p d) = channel k' p d" for k' p d
    using channel_range[of k' p d] by (intro uint8_id) linarith+
  ultimately show ?thesis by (simp add: video_r_def video_g_def video_b_def)
qed

text \<open>
  Claim C2. For every frame number \<open>k\<close> and every pixel, the field the two nested
  iterations fill (lines 111 to 119) holds \<open>[b, g, r]\<close> at row \<open>y\<close> and column \<open>x\<close>, with
  \<open>r = int(128 + 127 * np.sin(2 * np.pi * k / 60 + x / 100))\<close>, green the same with
  \<open>y / 100\<close> and blue with \<open>(x + y) / 200\<close>, evaluated in binary64 in the order the
  script writes them. Each of the three is the sinusoid of the claim: with
  \<open>S = 128 + 127 sin(2 \<pi> k / 60 + phase)\<close> over the reals, the channel is an integer
  \<open>c\<close> with \<open>S - 1 - 1/500 < c \<le> S + 1/500\<close>, where the phase is \<open>x / 100\<close> for red,
  \<open>y / 100\<close> for green and \<open>(x + y) / 200\<close> for blue. The frame the writer receives
  at position \<open>k\<close> holds the same values except under the three text stamps, where it is
  white. Red is a function of \<open>k\<close> and \<open>x\<close> only, green of \<open>k\<close> and \<open>y\<close>, blue of \<open>k\<close>
  and \<open>x + y\<close>; being functions of \<open>(x, y, k)\<close>, the values recompute identically.
\<close>

theorem video_field_channels:
  "0 \<le> k \<and> k < 300 \<and> 0 \<le> x \<and> x < 1280 \<and> 0 \<le> y \<and> y < 720 \<longrightarrow>
     (\<exists>f. field_canvas 1280 720 k = Inr f
          \<and> data f (y, x) = (video_b k x y, video_g k y, video_r k x))
     \<and> (\<exists>w'. create_sample_video glyph True w = Inr w'
          \<and> data (video_frames w' ! nat k) (y, x)
              = (if glyph (counter_label k 300) (50, 50) (x, y)
                    \<or> glyph (time_label k 30) (50, 100) (x, y)
                    \<or> glyph ''Sample Video for CompressCLI'' (50, 670) (x, y)
                 then (255, 255, 255) else (video_b k x y, video_g k y, video_r k x)))
     \<and> video_r k x = py_int (fadd 128 (fmul 127 (np_sin
           (fadd (fdiv (fmul (fmul 2 np_pi) (of_int k)) 60) (fdiv (of_int x) 100)))))
     \<and> video_g k y = py_int (fadd 128 (fmul 127 (np_sin
           (fadd (fdiv (fmul (fmul 2 np_pi) (of_int k)) 60) (fdiv (of_int y) 100)))))
     \<and> video_b k x y = py_int (fadd 128 (fmul 127 (np_sin
           (fadd (fdiv (fmul (fmul 2 np_pi) (of_int k)) 60) (fdiv (of_int (x + y)) 200)))))
     \<and> 128 + 127 * sin (2 * pi * real_of_int k / 60 + real_of_int x / 100) - 1 - 1 / 500
           < real_of_int (video_r k x)
     \<and> real_of_int (video_r k x)
           \<le> 128 + 127 * sin (2 * pi * real_of_int k / 60 + real_of_int x / 100) + 1 / 500
     \<and> 128 + 127 * sin (2 * pi * real_of_int k / 60 + real_of_int y / 100) - 1 - 1 / 500
           < real_of_int (video_g k y)
     \<and> real_of_int (video_g k y)
           \<le> 128 + 127 * sin (2 * pi * real_of_int k / 60 + real_of_int y / 100) + 1 / 500
     \<and> 128 + 127 * sin (2 * pi * real_of_int k / 60 + real_of_int (x + y) / 200) - 1 - 1 / 500
           < real_of_int (video_b k x y)
     \<and> real_of_int (video_b k x y)
           \<le> 128 + 127 * sin (2 * pi * real_of_int k / 60 + real_of_int (x + y) / 200) + 1 / 500"
proof
  assume h: "0 \<le> k \<and> k < 300 \<and> 0 \<le> x \<and> x < 1280 \<and> 0 \<le> y \<and> y < 720"
  from video_frames_nth[of glyph w] obtain w' where
    w': "create_sample_video glyph True w = Inr w'"
    "\<forall>k. 0 \<le> k \<and> k < 300 \<longrightarrow>
       make_frame glyph 1280 720 30 300 k = Inr (video_frames w' ! nat k)"
    by blast
  have fr: "\<exists>w'. create_sample_video glyph True w = Inr w'
          \<and> data (video_frames w' ! nat k) (y, x)
              = (if glyph (counter_label k 300) (50, 50) (x, y)
                    \<or> glyph (time_label k 30) (50, 100) (x, y)
                    \<or> glyph ''Sample Video for CompressCLI'' (50, 670) (x, y)
                 then (255, 255, 255) else (video_b k x y, video_g k y, video_r k x))"
    using make_frame_data[of glyph k "video_frames w' ! nat k" x y] w' h by blast
  have fd: "\<exists>f. field_canvas 1280 720 k = Inr f
          \<and> data f (y, x) = (video_b k x y, video_g k y, video_r k x)"
    using field_canvas_data[of x y k] h by simp
  have r: "128 + 127 * sin (2 * pi * real_of_int k / 60 + real_of_int x / 100) - 1 - 1 / 500
           < real_of_int (video_r k x)"
      "real_of_int (video_r k x)
           \<le> 128 + 127 * sin (2 * pi * real_of_int k / 60 + real_of_int x / 100) + 1 / 500"
    using channel_near_sinusoid[of k x 100] h by (simp_all add: video_r_def)
  have g: "128 + 127 * sin (2 * pi * real_of_int k / 60 + real_of_int y / 100) - 1 - 1 / 500
           < real_of_int (video_g k y)"
      "real_of_int (video_g k y)
           \<le> 128 + 127 * sin (2 * pi * real_of_int k / 60 + real_of_int y / 100) + 1 / 500"
    using channel_near_sinusoid[of k y 100] h by (simp_all add: video_g_def)
  have b: "128 + 127 * sin (2 * pi * real_of_int k / 60 + real_of_int (x + y) / 200) - 1 - 1 / 500
           < real_of_int (video_b k x y)"
      "real_of_int (video_b k x y)
           \<le> 128 + 127 * sin (2 * pi * real_of_int k / 60 + real_of_int (x + y) / 200) + 1 / 500"
    using channel_near_sinusoid[of k "x + y" 200] h by (simp_all add: video_b_def)
  have u: "video_r k x = py_int (fadd 128 (fmul 127 (np_sin
           (fadd (fdiv (fmul (fmul 2 np_pi) (of_int k)) 60) (fdiv (of_int x) 100)))))"
    "video_g k y = py_int (fadd 128 (fmul 127 (np_sin
           (fadd (fdiv (fmul (fmul 2 np_pi) (of_int k)) 60) (fdiv (of_int y) 100)))))"
    "video_b k x y = py_int (fadd 128 (fmul 127 (np_sin
           (fadd (fdiv (fmul (fmul 2 np_pi) (of_int k)) 60) (fdiv (of_int (x + y)) 200)))))"
    by (simp_all add: video_r_def video_g_def video_b_def channel_def phase_arg_def)
  from fd fr u r g b show "(\<exists>f. field_canvas 1280 720 k = Inr f
          \<and> data f (y, x) = (video_b k x y, video_g k y, video_r k x))
     \<and> (\<exists>w'. create_sample_video glyph True w = Inr w'
          \<and> data (video_frames w' ! nat k) (y, x)
              = (if glyph (counter_label k 300) (50, 50) (x, y)
                    \<or> glyph (time_label k 30) (50, 100) (x, y)
                    \<or> glyph ''Sample Video for CompressCLI'' (50, 670) (x, y)
                 then (255, 255, 255) else (video_b k x y, video_g k y, video_r k x)))
     \<and> video_r k x = py_int (fadd 128 (fmul 127 (np_sin
           (fadd (fdiv (fmul (fmul 2 np_pi) (of_int k)) 60) (fdiv (of_int x) 100)))))
     \<and> video_g k y = py_int (fadd 128 (fmul 127 (np_sin
           (fadd (fdiv (fmul (fmul 2 np_pi) (of_int k)) 60) (fdiv (of_int y) 100)))))
     \<and> video_b k x y = py_int (fadd 128 (fmul 127 (np_sin
           (fadd (fdiv (fmul (fmul 2 np_pi) (of_int k)) 60) (fdiv (of_int (x + y)) 200)))))
     \<and> 128 + 127 * sin (2 * pi * real_of_int k / 60 + real_of_int x / 100) - 1 - 1 / 500
           < real_of_int (video_r k x)
     \<and> real_of_int (video_r k x)
           \<le> 128 + 127 * sin (2 * pi * real_of_int k / 60 + real_of_int x / 100) + 1 / 500
     \<and> 128 + 127 * sin (2 * pi * real_of_int k / 60 + real_of_int y / 100) - 1 - 1 / 500
           < real_of_int (video_g k y)
     \<and> real_of_int (video_g k y)
           \<le> 128 + 127 * sin (2 * pi * real_of_int k / 60 + real_of_int y / 100) + 1 / 500
     \<and> 128 + 127 * sin (2 * pi * real_of_int k / 60 + real_of_int (x + y) / 200) - 1 - 1 / 500
           < real_of_int (video_b k x y)
     \<and> real_of_int (video_b k x y)
           \<le> 128 + 127 * sin (2 * pi * real_of_int k / 60 + real_of_int (x + y) / 200) + 1 / 500"
    by (intro conjI)
qed

text \<open>
  At the crest of the sinusoid, a quarter of a period after the start, the pixel in the
  corner is at 254 or 255 in all three channels; the pixel at the origin of the first
  stamp is white when the font covers it.
\<close>

theorem video_field_channels_witness:
  "\<exists>w'. create_sample_video (\<lambda>s org p. p = org) True \<lparr>files = Map.empty, stdout = []\<rparr> = Inr w'
     \<and> data (video_frames w' ! 15) (0, 0) = (video_b 15 0 0, video_g 15 0, video_r 15 0)
     \<and> 254 \<le> video_r 15 0 \<and> video_r 15 0 \<le> 255
     \<and> 254 \<le> video_g 15 0 \<and> video_g 15 0 \<le> 255
     \<and> 254 \<le> video_b 15 0 0 \<and> video_b 15 0 0 \<le> 255"
proof -
  have s: "sin (2 * pi * real_of_int 15 / 60 + real_of_int 0 / 100) = 1"
    "sin (2 * pi * real_of_int 15 / 60 + real_of_int (0 + 0) / 200) = 1"
    by simp_all
  have h: "(0::int) \<le> 15 \<and> (15::int) < 300 \<and> (0::int) \<le> 0 \<and> (0::int) < 1280
      \<and> (0::int) \<le> 0 \<and> (0::int) < 720"
    by simp
  note t = video_field_channels[of 15 0 0 "\<lambda>s org p. p = org"
      "\<lparr>files = Map.empty, stdout = []\<rparr>", rule_format, OF h, unfolded s]
  from t have r: "254 \<le> video_r 15 0 \<and> video_r 15 0 \<le> 255" by linarith
  from t have g: "254 \<le> video_g 15 0 \<and> video_g 15 0 \<le> 255" by linarith
  from t have b: "254 \<le> video_b 15 0 0 \<and> video_b 15 0 0 \<le> 255" by linarith
  from t[THEN conjunct2, THEN conjunct1]
  have "\<exists>w'. create_sample_video (\<lambda>s org p. p = org) True
        \<lparr>files = Map.empty, stdout = []\<rparr> = Inr w'
     \<and> data (video_frames w' ! 15) (0, 0) = (video_b 15 0 0, video_g 15 0, video_r 15 0)"
    by simp
  with r g b show ?thesis by blast
qed

end
